theory Spec2Isabelle
  imports Complex_Main "HOL-Library.Sublist"
begin

section \<open>Exceptions\<close>

text \<open>
  Python exceptions are values. \<open>ValueError\<close> is what \<open>float\<close> and a tuple unpacking of
  the wrong length raise, \<open>KeyError k\<close> what a dictionary raises on a missing key \<open>k\<close>;
  \<open>Exception msg\<close> stands for anything an external collaborator
  (the HTTP library, the feed parser, the file system) raises. Every handler of the
  program is \<open>except Exception\<close>, so the handlers do not look at the class.
\<close>

datatype error = ValueError | KeyError string | Exception string

section \<open>utils.py\<close>

text \<open>
  A Python \<open>str\<close> is a sequence of Unicode code points, and \<open>len\<close> counts them. A title
  is the list of its code points, each a natural number (those of a \<open>str\<close> are below
  0x110000; nothing here depends on the bound). \<open>str_of\<close> gives the code points of an
  ASCII literal of the source.
\<close>

type_synonym code_point = nat

definition str_of :: "string \<Rightarrow> code_point list" where
  "str_of s = map of_char s"

definition illegal_chars :: "code_point list" where
  \<comment> \<open>the class \<open>[<>:"/\\|?*]\<close>\<close>
  "illegal_chars =
     str_of [CHR ''<'', CHR ''>'', CHR '':'', CHR 0x22, CHR ''/'', CHR 0x5C, CHR ''|'', CHR ''?'', CHR ''*'']"

definition in_x00_x1f :: "code_point \<Rightarrow> bool" where
  \<comment> \<open>the class \<open>[\x00-\x1f]\<close>\<close>
  "in_x00_x1f c = (c \<le> 0x1f)"

definition strip_chars :: "'a list \<Rightarrow> 'a list \<Rightarrow> 'a list" where
  \<comment> \<open>\<open>s.strip(chars)\<close>: drops the characters of \<open>chars\<close> from both ends\<close>
  "strip_chars chars s =
     rev (dropWhile (\<lambda>c. c \<in> set chars) (rev (dropWhile (\<lambda>c. c \<in> set chars) s)))"

definition sanitize_filename :: "code_point list \<Rightarrow> code_point list" where
  "sanitize_filename name0 =
     (let name1 = filter (\<lambda>c. c \<notin> set illegal_chars) name0;
          name2 = filter (\<lambda>c. \<not> in_x00_x1f c) name1;
          name3 = (if length name2 > 200 then take 200 name2 else name2);
          name4 = strip_chars (str_of '' .'') name3
      in if name4 = [] then str_of ''untitled'' else name4)"

text \<open>
  The code points Python's \<open>str.isspace\<close> accepts: tab to carriage return, the
  separators U+001C to U+001F, the space, U+0085, U+00A0, U+1680, U+2000 to U+200A,
  U+2028, U+2029, U+202F, U+205F and U+3000.
\<close>

definition py_isspace :: "code_point \<Rightarrow> bool" where
  "py_isspace c =
     ((0x09 \<le> c \<and> c \<le> 0x0D) \<or> (0x1C \<le> c \<and> c \<le> 0x1F) \<or> c = 0x20 \<or> c = 0x85 \<or> c = 0xA0
      \<or> c = 0x1680 \<or> (0x2000 \<le> c \<and> c \<le> 0x200A) \<or> c = 0x2028 \<or> c = 0x2029 \<or> c = 0x202F
      \<or> c = 0x205F \<or> c = 0x3000)"

definition title_example :: "code_point list" where
  \<comment> \<open>\<open>Test: Episode "01" <Special>\<close>, the input of the module's self-test\<close>
  "title_example = str_of (''Test: Episode '' @ [CHR 0x22] @ ''01'' @ [CHR 0x22] @ '' <Special>'')"

section \<open>transcriber.py\<close>

subsection \<open>Numbers and their formatting\<close>

text \<open>
  Segment times are Python floats. They are modelled by rationals: the renderers only
  apply floor division and remainder by the integers 3600 and 60 and a truncation to
  \<open>int\<close>, which are exact on every float that is a multiple of a small power of two,
  such as 0.0, 2.5 and 5.0.
\<close>

definition py_floordiv :: "rat \<Rightarrow> rat \<Rightarrow> rat" where
  \<comment> \<open>\<open>x // y\<close> on floats, for \<open>y \<noteq> 0\<close>\<close>
  "py_floordiv x y = of_int \<lfloor>x / y\<rfloor>"

definition py_mod :: "rat \<Rightarrow> rat \<Rightarrow> rat" where
  \<comment> \<open>\<open>x % y\<close> on floats, for \<open>y \<noteq> 0\<close>: the sign of the divisor\<close>
  "py_mod x y = x - y * of_int \<lfloor>x / y\<rfloor>"

definition py_int :: "rat \<Rightarrow> int" where
  \<comment> \<open>\<open>int(x)\<close>: truncation towards zero\<close>
  "py_int x = (if 0 \<le> x then \<lfloor>x\<rfloor> else \<lceil>x\<rceil>)"

definition digit_char :: "nat \<Rightarrow> char" where
  "digit_char d = char_of (48 + d)"

fun str_nat :: "nat \<Rightarrow> string" where
  "str_nat n = (if n < 10 then [digit_char n] else str_nat (n div 10) @ [digit_char (n mod 10)])"

declare str_nat.simps [simp del]

definition str_int :: "int \<Rightarrow> string" where
  \<comment> \<open>\<open>str(n)\<close>, also \<open>f"{n}"\<close>\<close>
  "str_int n = (if n < 0 then ''-'' @ str_nat (nat (- n)) else str_nat (nat n))"

definition zfill :: "nat \<Rightarrow> string \<Rightarrow> string" where
  "zfill w s = replicate (w - length s) (CHR ''0'') @ s"

definition format_02d :: "int \<Rightarrow> string" where
  \<comment> \<open>\<open>f"{n:02d}"\<close>: width 2 counts the sign, the zeros go after it\<close>
  "format_02d n = (if n < 0 then ''-'' @ zfill 1 (str_nat (nat (- n))) else zfill 2 (str_nat (nat n)))"

record TranscriptSegment =
  start_time :: rat
  end_time :: rat
  seg_text :: string
  speaker :: int

definition format_time :: "rat \<Rightarrow> string" where
  "format_time seconds =
     (let hours = py_int (py_floordiv seconds 3600);
          minutes = py_int (py_floordiv (py_mod seconds 3600) 60);
          secs = py_int (py_mod seconds 60)
      in format_02d hours @ '':'' @ format_02d minutes @ '':'' @ format_02d secs)"

fun join :: "string \<Rightarrow> string list \<Rightarrow> string" where
  "join sep [] = []"
| "join sep [x] = x"
| "join sep (x # y # ys) = x @ sep @ join sep (y # ys)"

definition markdown_line :: "TranscriptSegment \<Rightarrow> string" where
  \<comment> \<open>the body of the loop of \<open>segments_to_markdown\<close>\<close>
  "markdown_line seg =
     (let timestamp = format_time (start_time seg);
          speaker_label = (if speaker seg \<noteq> 0 then ''Speaker '' @ str_int (speaker seg) else '''')
      in if speaker_label \<noteq> ''''
         then ''['' @ timestamp @ ''] **'' @ speaker_label @ ''**: '' @ seg_text seg
         else ''['' @ timestamp @ ''] '' @ seg_text seg)"

definition segments_to_markdown :: "TranscriptSegment list \<Rightarrow> string" where
  "segments_to_markdown segments = join [CHR 0x0A, CHR 0x0A] (map markdown_line segments)"

record json_segment =
  js_time :: string
  js_start :: rat
  js_end :: rat
  js_speaker :: int
  js_text :: string

definition segments_to_json :: "TranscriptSegment list \<Rightarrow> json_segment list" where
  "segments_to_json segments =
     map (\<lambda>seg. \<lparr>js_time = format_time (start_time seg), js_start = start_time seg,
                 js_end = end_time seg, js_speaker = speaker seg, js_text = seg_text seg\<rparr>) segments"

definition example_segments :: "TranscriptSegment list" where
  "example_segments =
     [\<lparr>start_time = 0, end_time = 5 / 2, seg_text = ''hello'', speaker = 1\<rparr>,
      \<lparr>start_time = 5 / 2, end_time = 5, seg_text = ''world'', speaker = 1\<rparr>]"

subsection \<open>ISO 8601 durations\<close>

text \<open>
  \<open>float\<close> and the float arithmetic are Python's own. Both parsers are modelled over
  any interpretation of them: \<open>float_of\<close> is \<open>float(s)\<close> (\<open>None\<close> when it raises
  \<open>ValueError\<close>), \<open>f_of_int\<close> the conversion of an integer literal, \<open>fmul\<close> and \<open>fadd\<close>
  the product and the sum.
\<close>

record 'f float_ops =
  float_of :: "string \<Rightarrow> 'f option"
  f_of_int :: "int \<Rightarrow> 'f"
  fmul :: "'f \<Rightarrow> 'f \<Rightarrow> 'f"
  fadd :: "'f \<Rightarrow> 'f \<Rightarrow> 'f"

fun split_on :: "char \<Rightarrow> string \<Rightarrow> string list" where
  \<comment> \<open>\<open>s.split(sep)\<close> for a separator of one character\<close>
  "split_on sep [] = [[]]"
| "split_on sep (c # cs) =
     (if c = sep then [] # split_on sep cs
      else (case split_on sep cs of [] \<Rightarrow> [[c]] | p # ps \<Rightarrow> (c # p) # ps))"

definition startswith :: "string \<Rightarrow> string \<Rightarrow> bool" where
  "startswith s p = (take (length p) s = p)"

definition unpack2 :: "string list \<Rightarrow> error + (string \<times> string)" where
  \<comment> \<open>\<open>a, b = parts\<close>: a list of any other length raises \<open>ValueError\<close>\<close>
  "unpack2 parts = (case parts of [a, b] \<Rightarrow> Inr (a, b) | _ \<Rightarrow> Inl ValueError)"

definition py_float :: "'f float_ops \<Rightarrow> string \<Rightarrow> error + 'f" where
  "py_float F s = (case float_of F s of None \<Rightarrow> Inl ValueError | Some x \<Rightarrow> Inr x)"

definition bind_result :: "error + 'a \<Rightarrow> ('a \<Rightarrow> error + 'b) \<Rightarrow> error + 'b" where
  "bind_result r k = (case r of Inl e \<Rightarrow> Inl e | Inr x \<Rightarrow> k x)"

definition parse_duration :: "'f float_ops \<Rightarrow> string \<Rightarrow> error + 'f" where
  \<comment> \<open>query.py, the module-level function\<close>
  "parse_duration F duration_str0 =
     (if duration_str0 = [] \<or> \<not> startswith duration_str0 ''PT'' then Inr (f_of_int F 0)
      else
        let duration_str1 = drop 2 duration_str0;
            total0 = f_of_int F 0
        in bind_result
             (if CHR ''H'' \<in> set duration_str1
              then bind_result (unpack2 (split_on CHR ''H'' duration_str1)) (\<lambda>(hours, rest).
                   bind_result (py_float F hours) (\<lambda>h.
                   Inr (fadd F total0 (fmul F h (f_of_int F 3600)), rest)))
              else Inr (total0, duration_str1))
             (\<lambda>(total1, duration_str2).
           bind_result
             (if CHR ''M'' \<in> set duration_str2
              then bind_result (unpack2 (split_on CHR ''M'' duration_str2)) (\<lambda>(minutes, rest).
                   bind_result (py_float F minutes) (\<lambda>m.
                   Inr (fadd F total1 (fmul F m (f_of_int F 60)), rest)))
              else Inr (total1, duration_str2))
             (\<lambda>(total2, duration_str3).
           if CHR ''S'' \<in> set duration_str3
           then bind_result (py_float F (filter (\<lambda>c. c \<noteq> CHR ''S'') duration_str3)) (\<lambda>s.
                Inr (fadd F total2 s))
           else Inr total2)))"

definition Transcriber_parse_duration :: "'f float_ops \<Rightarrow> string \<Rightarrow> error + 'f" where
  \<comment> \<open>transcriber.py, the method \<open>Transcriber._parse_duration\<close>; \<open>self\<close> is not used\<close>
  "Transcriber_parse_duration F duration_str0 =
     (if duration_str0 = [] \<or> \<not> startswith duration_str0 ''PT'' then Inr (f_of_int F 0)
      else
        let duration_str1 = drop 2 duration_str0;
            total_seconds0 = f_of_int F 0
        in bind_result
             (if CHR ''H'' \<in> set duration_str1
              then bind_result (unpack2 (split_on CHR ''H'' duration_str1)) (\<lambda>(hours, rest).
                   bind_result (py_float F hours) (\<lambda>h.
                   Inr (fadd F total_seconds0 (fmul F h (f_of_int F 3600)), rest)))
              else Inr (total_seconds0, duration_str1))
             (\<lambda>(total_seconds1, duration_str2).
           bind_result
             (if CHR ''M'' \<in> set duration_str2
              then bind_result (unpack2 (split_on CHR ''M'' duration_str2)) (\<lambda>(minutes, rest).
                   bind_result (py_float F minutes) (\<lambda>m.
                   Inr (fadd F total_seconds1 (fmul F m (f_of_int F 60)), rest)))
              else Inr (total_seconds1, duration_str2))
             (\<lambda>(total_seconds2, duration_str3).
           if CHR ''S'' \<in> set duration_str3
           then (let seconds = filter (\<lambda>c. c \<noteq> CHR ''S'') duration_str3
                 in bind_result (py_float F seconds) (\<lambda>s. Inr (fadd F total_seconds2 s)))
           else Inr total_seconds2)))"

section \<open>db.py\<close>

text \<open>
  The two SQLite tables are lists of rows in rowid order. \<open>id INTEGER PRIMARY KEY
  AUTOINCREMENT\<close> gives a new row an id above every id the table ever used: the
  counters \<open>processed_seq\<close> and \<open>pending_seq\<close> hold the largest one. \<open>INSERT OR REPLACE\<close>
  deletes the rows that collide with the new one on \<open>UNIQUE(episode_id, channel)\<close>
  and then inserts it. A point in time is a natural number. The operations are total:
  a failure of the storage layer itself (disk, locking) is not modelled.
\<close>

type_synonym datetime = nat

record ProcessedEpisode =
  pe_id :: nat
  pe_episode_id :: string
  pe_channel :: string
  pe_title :: string
  pe_processed_at :: datetime
  pe_status :: string
  pe_output_path :: string

record PendingEpisode =
  pn_id :: nat
  pn_episode_id :: string
  pn_channel :: string
  pn_title :: string
  pn_audio_url :: string
  pn_transcription_id :: string
  pn_submitted_at :: datetime
  pn_published :: "datetime option"
  pn_duration :: "string option"

record Database =
  processed_episodes :: "ProcessedEpisode list"
  processed_seq :: nat
  pending_episodes :: "PendingEpisode list"
  pending_seq :: nat

definition init_db :: Database where
  \<comment> \<open>\<open>_init_db\<close> on a new file: both tables exist and are empty\<close>
  "init_db = \<lparr>processed_episodes = [], processed_seq = 0, pending_episodes = [], pending_seq = 0\<rparr>"

definition is_processed :: "Database \<Rightarrow> string \<Rightarrow> string \<Rightarrow> bool" where
  "is_processed d episode_id channel =
     (filter (\<lambda>r. pe_episode_id r = episode_id \<and> pe_channel r = channel \<and> pe_status r = ''success'')
        (processed_episodes d) \<noteq> [])"

definition mark_processed ::
  "Database \<Rightarrow> string \<Rightarrow> string \<Rightarrow> string \<Rightarrow> string \<Rightarrow> string \<Rightarrow> datetime \<Rightarrow> Database" where
  \<comment> \<open>the last argument is the value of \<open>datetime.now()\<close>\<close>
  "mark_processed d episode_id channel title output_path status now =
     d\<lparr>processed_episodes :=
          filter (\<lambda>r. \<not> (pe_episode_id r = episode_id \<and> pe_channel r = channel)) (processed_episodes d)
          @ [\<lparr>pe_id = processed_seq d + 1, pe_episode_id = episode_id, pe_channel = channel,
               pe_title = title, pe_processed_at = now, pe_status = status,
               pe_output_path = output_path\<rparr>],
        processed_seq := processed_seq d + 1\<rparr>"

definition is_pending :: "Database \<Rightarrow> string \<Rightarrow> string \<Rightarrow> bool" where
  "is_pending d episode_id channel =
     (filter (\<lambda>r. pn_episode_id r = episode_id \<and> pn_channel r = channel) (pending_episodes d) \<noteq> [])"

definition mark_pending ::
  "Database \<Rightarrow> string \<Rightarrow> string \<Rightarrow> string \<Rightarrow> string \<Rightarrow> string \<Rightarrow> datetime option \<Rightarrow> string option
     \<Rightarrow> datetime \<Rightarrow> Database" where
  \<comment> \<open>the last argument is the value of \<open>datetime.now()\<close>\<close>
  "mark_pending d episode_id channel title audio_url transcription_id published duration now =
     d\<lparr>pending_episodes :=
          filter (\<lambda>r. \<not> (pn_episode_id r = episode_id \<and> pn_channel r = channel)) (pending_episodes d)
          @ [\<lparr>pn_id = pending_seq d + 1, pn_episode_id = episode_id, pn_channel = channel,
               pn_title = title, pn_audio_url = audio_url, pn_transcription_id = transcription_id,
               pn_submitted_at = now, pn_published = published, pn_duration = duration\<rparr>],
        pending_seq := pending_seq d + 1\<rparr>"

definition get_pending :: "Database \<Rightarrow> string option \<Rightarrow> PendingEpisode list" where
  \<comment> \<open>\<open>if channel:\<close> is false for \<open>None\<close> and for the empty string\<close>
  "get_pending d channel =
     (case channel of
        None \<Rightarrow> pending_episodes d
      | Some c \<Rightarrow> if c \<noteq> [] then filter (\<lambda>r. pn_channel r = c) (pending_episodes d)
                  else pending_episodes d)"

definition remove_pending :: "Database \<Rightarrow> string \<Rightarrow> string \<Rightarrow> Database" where
  "remove_pending d episode_id channel =
     d\<lparr>pending_episodes :=
          filter (\<lambda>r. \<not> (pn_episode_id r = episode_id \<and> pn_channel r = channel)) (pending_episodes d)\<rparr>"

text \<open>The constraint \<open>UNIQUE(episode_id, channel)\<close> of the two tables.\<close>

definition unique_keys :: "Database \<Rightarrow> bool" where
  "unique_keys d =
     (distinct (map (\<lambda>r. (pe_episode_id r, pe_channel r)) (processed_episodes d)) \<and>
      distinct (map (\<lambda>r. (pn_episode_id r, pn_channel r)) (pending_episodes d)))"

definition pending_rows :: "Database \<Rightarrow> string \<Rightarrow> string \<Rightarrow> PendingEpisode list" where
  "pending_rows d episode_id channel =
     filter (\<lambda>r. pn_episode_id r = episode_id \<and> pn_channel r = channel) (pending_episodes d)"

definition processed_rows :: "Database \<Rightarrow> string \<Rightarrow> string \<Rightarrow> ProcessedEpisode list" where
  "processed_rows d episode_id channel =
     filter (\<lambda>r. pe_episode_id r = episode_id \<and> pe_channel r = channel) (processed_episodes d)"

section \<open>The collaborators\<close>

text \<open>
  What the program reaches through the network, the feed parser, the file system and
  the clock is a state \<open>'x\<close> the program cannot see, with one operation per call site:
  each takes the arguments of the call and the state, and returns what the call
  returns or raises, and the next state. \<open>save_output\<close> writes the two output files and
  does not touch the database, so it is one of them. The credentials passed along to
  every request are part of the state. submit.py imports \<open>load_config\<close> from utils.py,
  which does not define it: its result, the channels of the configuration file, is
  an input.
\<close>

record Episode =
  ep_id :: string
  ep_title :: string
  ep_audio_url :: string
  ep_published :: datetime
  ep_duration :: "string option"
  ep_description :: "string option"

record Channel =
  ch_name :: string
  ch_url :: string
  ch_max_episodes :: nat
  ch_language :: string

record TranscriptionStatus =
  \<comment> \<open>the JSON object of a status response: \<open>["status"]\<close> and
      \<open>["properties"]["error"]["message"]\<close>, each possibly absent\<close>
  st_status :: "string option"
  st_error_message :: "string option"

record 'x external =
  config_exists :: "'x \<Rightarrow> bool"
  load_config :: "'x \<Rightarrow> (error + Channel list) \<times> 'x"
  parse_feed :: "string \<Rightarrow> nat \<Rightarrow> 'x \<Rightarrow> (error + Episode list) \<times> 'x"
  submit_transcription :: "string \<Rightarrow> string \<Rightarrow> 'x \<Rightarrow> (error + string) \<times> 'x"
  check_transcription_status :: "string \<Rightarrow> 'x \<Rightarrow> (error + TranscriptionStatus) \<times> 'x"
  get_transcription_result :: "string \<Rightarrow> 'x \<Rightarrow> (error + TranscriptSegment list) \<times> 'x"
  delete_transcription :: "string \<Rightarrow> 'x \<Rightarrow> (error + unit) \<times> 'x"
  save_output :: "PendingEpisode \<Rightarrow> TranscriptSegment list \<Rightarrow> 'x \<Rightarrow> (error + string) \<times> 'x"
  datetime_now :: "'x \<Rightarrow> datetime"

datatype call =
    Call_load_config
  | Call_parse_feed string nat
  | Call_submit_transcription string string
  | Call_check_transcription_status string
  | Call_get_transcription_result string
  | Call_delete_transcription string
  | Call_save_output PendingEpisode "TranscriptSegment list"

text \<open>The lines the two programs log about what they decided, one constructor per call of the logger.\<close>

datatype log_line =
    No_episodes_found
  | Already_processed string
  | Already_pending string
  | Submitted string string
  | Failed_to_submit error
  | Config_file_not_found
  | Skipping_done string
  | Skipping_pending string
  | Submitted_to string string
  | Failed error
  | Error_processing_channel error
  | No_pending_transcriptions
  | Listed PendingEpisode
  | Completed string
  | No_segments_found
  | Failed_remotely string
  | Still_running string
  | Error error
  | Summary_submit nat nat
  | Summary_query nat nat nat

record 'x world =
  db :: Database
  ext :: 'x
  calls :: "call list"
  logs :: "log_line list"

definition logger :: "log_line \<Rightarrow> 'x world \<Rightarrow> 'x world" where
  "logger l w = w\<lparr>logs := logs w @ [l]\<rparr>"

definition calling :: "call \<Rightarrow> ('x \<Rightarrow> 'r \<times> 'x) \<Rightarrow> 'x world \<Rightarrow> 'r \<times> 'x world" where
  \<comment> \<open>one call of a collaborator: the call is recorded, the hidden state moves on\<close>
  "calling c f w = (case f (ext w) of (r, x') \<Rightarrow> (r, w\<lparr>ext := x', calls := calls w @ [c]\<rparr>))"

section \<open>submit.py\<close>

definition process_single_rss_episode ::
  "'x external \<Rightarrow> string \<Rightarrow> string \<Rightarrow> Episode \<Rightarrow> 'x world \<Rightarrow> nat \<times> 'x world" where
  \<comment> \<open>\<open>process_single_rss\<close> from \<open>episode = episodes[0]\<close> on\<close>
  "process_single_rss_episode X channel_name language episode w =
     (if is_processed (db w) (ep_id episode) channel_name
      then (0, logger (Already_processed (ep_title episode)) w)
      else if is_pending (db w) (ep_id episode) channel_name
      then (0, logger (Already_pending (ep_title episode)) w)
      else
        (case calling (Call_submit_transcription (ep_audio_url episode) language)
                (submit_transcription X (ep_audio_url episode) language) w of
           (Inl e, w1) \<Rightarrow> (0, logger (Failed_to_submit e) w1)
         | (Inr transcription_id, w1) \<Rightarrow>
             (1, logger (Submitted (ep_title episode) transcription_id)
                   (w1\<lparr>db := mark_pending (db w1) (ep_id episode) channel_name (ep_title episode)
                              (ep_audio_url episode) transcription_id (Some (ep_published episode))
                              (ep_duration episode) (datetime_now X (ext w1))\<rparr>))))"

definition process_single_rss ::
  "'x external \<Rightarrow> string \<Rightarrow> string \<Rightarrow> string \<Rightarrow> 'x world \<Rightarrow> (error + nat) \<times> 'x world" where
  \<comment> \<open>\<open>parse_feed\<close> is called outside every handler: what it raises leaves the function\<close>
  "process_single_rss X url channel_name language w =
     (case calling (Call_parse_feed url 1) (parse_feed X url 1) w of
        (Inl e, w1) \<Rightarrow> (Inl e, w1)
      | (Inr episodes, w1) \<Rightarrow>
          (case episodes of
             [] \<Rightarrow> (Inr 0, logger No_episodes_found w1)
           | episode # _ \<Rightarrow>
               (case process_single_rss_episode X channel_name language episode w1 of
                  (n, w2) \<Rightarrow> (Inr n, w2))))"

definition process_config_episode ::
  "'x external \<Rightarrow> Channel \<Rightarrow> nat \<times> nat \<times> 'x world \<Rightarrow> Episode \<Rightarrow> nat \<times> nat \<times> 'x world" where
  \<comment> \<open>the body of \<open>for episode in episodes\<close>, on the counters and the world\<close>
  "process_config_episode X channel acc episode =
     (case acc of (submitted, skipped, w) \<Rightarrow>
        if is_processed (db w) (ep_id episode) (ch_name channel)
        then (submitted, skipped + 1, logger (Skipping_done (take 40 (ep_title episode))) w)
        else if is_pending (db w) (ep_id episode) (ch_name channel)
        then (submitted, skipped + 1, logger (Skipping_pending (take 40 (ep_title episode))) w)
        else
          (case calling (Call_submit_transcription (ep_audio_url episode) (ch_language channel))
                  (submit_transcription X (ep_audio_url episode) (ch_language channel)) w of
             (Inl e, w1) \<Rightarrow> (submitted, skipped, logger (Failed e) w1)
           | (Inr transcription_id, w1) \<Rightarrow>
               (submitted + 1, skipped,
                logger (Submitted_to (take 40 (ep_title episode)) transcription_id)
                  (w1\<lparr>db := mark_pending (db w1) (ep_id episode) (ch_name channel) (ep_title episode)
                             (ep_audio_url episode) transcription_id (Some (ep_published episode))
                             (ep_duration episode) (datetime_now X (ext w1))\<rparr>))))"

definition process_config_channel ::
  "'x external \<Rightarrow> nat \<times> nat \<times> 'x world \<Rightarrow> Channel \<Rightarrow> nat \<times> nat \<times> 'x world" where
  \<comment> \<open>the body of \<open>for channel in channels\<close>\<close>
  "process_config_channel X acc channel =
     (case acc of (submitted, skipped, w) \<Rightarrow>
        (case calling (Call_parse_feed (ch_url channel) (ch_max_episodes channel))
                (parse_feed X (ch_url channel) (ch_max_episodes channel)) w of
           (Inl e, w1) \<Rightarrow> (submitted, skipped, logger (Error_processing_channel e) w1)
         | (Inr episodes, w1) \<Rightarrow>
             foldl (process_config_episode X channel) (submitted, skipped, w1) episodes))"

definition process_config_file :: "'x external \<Rightarrow> 'x world \<Rightarrow> (error + nat \<times> nat) \<times> 'x world" where
  "process_config_file X w =
     (if \<not> config_exists X (ext w) then (Inr (0, 0), logger Config_file_not_found w)
      else
        (case calling Call_load_config (load_config X) w of
           (Inl e, w1) \<Rightarrow> (Inl e, w1)
         | (Inr channels, w1) \<Rightarrow>
             (case foldl (process_config_channel X) (0, 0, w1) channels of
                (submitted, skipped, w2) \<Rightarrow> (Inr (submitted, skipped), w2))))"

section \<open>query.py\<close>

definition resolve :: "'x external \<Rightarrow> PendingEpisode \<Rightarrow> string \<Rightarrow> string \<Rightarrow> 'x world \<Rightarrow> 'x world" where
  \<comment> \<open>\<open>db.mark_processed(...)\<close> followed by \<open>db.remove_pending(...)\<close>, as all three
      terminal branches of \<open>main\<close> do\<close>
  "resolve X pending output_path status w =
     (let w1 = w\<lparr>db := mark_processed (db w) (pn_episode_id pending) (pn_channel pending)
                          (pn_title pending) output_path status (datetime_now X (ext w))\<rparr>
      in w1\<lparr>db := remove_pending (db w1) (pn_episode_id pending) (pn_channel pending)\<rparr>)"

definition query_main_step ::
  "'x external \<Rightarrow> nat \<times> nat \<times> nat \<times> 'x world \<Rightarrow> PendingEpisode \<Rightarrow> nat \<times> nat \<times> nat \<times> 'x world" where
  \<comment> \<open>the body of \<open>for pending in pending_list\<close>; every \<open>Inl\<close> is the handler
      \<open>except Exception\<close>, which logs and counts the job as failed\<close>
  "query_main_step X acc pending =
     (case acc of (completed, still_running, failed, w) \<Rightarrow>
        (case calling (Call_check_transcription_status (pn_transcription_id pending))
                (check_transcription_status X (pn_transcription_id pending)) w of
           (Inl e, w1) \<Rightarrow> (completed, still_running, failed + 1, logger (Error e) w1)
         | (Inr status, w1) \<Rightarrow>
             (case st_status status of
                None \<Rightarrow> (completed, still_running, failed + 1, logger (Error (KeyError ''status'')) w1)
              | Some st \<Rightarrow>
                  if st = ''Succeeded'' then
                    (case calling (Call_get_transcription_result (pn_transcription_id pending))
                            (get_transcription_result X (pn_transcription_id pending)) w1 of
                       (Inl e, w2) \<Rightarrow> (completed, still_running, failed + 1, logger (Error e) w2)
                     | (Inr segments, w2) \<Rightarrow>
                         if segments \<noteq> [] then
                           (case calling (Call_save_output pending segments)
                                   (save_output X pending segments) w2 of
                              (Inl e, w3) \<Rightarrow> (completed, still_running, failed + 1, logger (Error e) w3)
                            | (Inr output_path, w3) \<Rightarrow>
                                (case calling (Call_delete_transcription (pn_transcription_id pending))
                                        (delete_transcription X (pn_transcription_id pending))
                                        (resolve X pending output_path ''success'' w3) of
                                   (Inl e, w4) \<Rightarrow>
                                     (completed, still_running, failed + 1, logger (Error e) w4)
                                 | (Inr u, w4) \<Rightarrow>
                                     (completed + 1, still_running, failed,
                                      logger (Completed output_path) w4)))
                         else
                           (completed, still_running, failed + 1,
                            logger No_segments_found (resolve X pending [] ''failed'' w2)))
                  else if st = ''Failed'' then
                    (let error = (case st_error_message status of None \<Rightarrow> ''Unknown'' | Some m \<Rightarrow> m);
                         w2 = resolve X pending [] ''failed'' (logger (Failed_remotely error) w1)
                     in case calling (Call_delete_transcription (pn_transcription_id pending))
                               (delete_transcription X (pn_transcription_id pending)) w2 of
                          (Inl e, w3) \<Rightarrow> (completed, still_running, failed + 1, logger (Error e) w3)
                        | (Inr u, w3) \<Rightarrow> (completed, still_running, failed + 1, w3))
                  else (completed, still_running + 1, failed, logger (Still_running st) w1))))"

definition query_main :: "'x external \<Rightarrow> string option \<Rightarrow> bool \<Rightarrow> 'x world \<Rightarrow> 'x world" where
  \<comment> \<open>\<open>main\<close> of query.py from \<open>pending_list = db.get_pending(args.channel)\<close> on;
      the arguments are \<open>args.channel\<close> and \<open>args.list\<close>\<close>
  "query_main X channel list_only w =
     (let pending_list = get_pending (db w) channel
      in if pending_list = [] then logger No_pending_transcriptions w
         else if list_only then foldl (\<lambda>w' p. logger (Listed p) w') w pending_list
         else
           (case foldl (query_main_step X) (0, 0, 0, w) pending_list of
              (completed, still_running, failed, w') \<Rightarrow>
                logger (Summary_query completed still_running failed) w'))"

section \<open>Runs of the two programs\<close>

text \<open>
  The states of the store that runs of the two programs reach from a new database.
  Between two runs the collaborators may change in any way.
\<close>

inductive reachable :: "'x external \<Rightarrow> 'x world \<Rightarrow> bool" for X :: "'x external" where
  reachable_init: "reachable X \<lparr>db = init_db, ext = x, calls = [], logs = []\<rparr>"
| reachable_ext: "reachable X w \<Longrightarrow> reachable X (w\<lparr>ext := x\<rparr>)"
| reachable_single:
    "reachable X w \<Longrightarrow> reachable X (snd (process_single_rss X url channel_name language w))"
| reachable_config: "reachable X w \<Longrightarrow> reachable X (snd (process_config_file X w))"
| reachable_query: "reachable X w \<Longrightarrow> reachable X (query_main X channel list_only w)"

section \<open>Properties and examples\<close>

text \<open>
  The control characters of Unicode (category Cc): U+0000 to U+001F and U+007F to
  U+009F. The class \<open>[\x00-\x1f]\<close> of \<open>sanitize_filename\<close> covers the first 32 of them.
\<close>

definition control_character :: "code_point \<Rightarrow> bool" where
  "control_character c = (c \<le> 0x1F \<or> (0x7F \<le> c \<and> c \<le> 0x9F))"




text \<open>No identity is pending and processed with status success at once.\<close>

definition exclusive :: "Database \<Rightarrow> bool" where
  "exclusive d = (\<forall>e c. \<not> (is_pending d e c \<and> is_processed d e c))"

text \<open>
  A property of the store that holds of a new database and that the writes of the two
  programs keep: a pending row written for an identity that is neither processed with
  success nor pending, and a processed row written together with the removal of the
  pending rows of its identity.
\<close>

definition kept_by_writes :: "(Database \<Rightarrow> bool) \<Rightarrow> bool" where
  "kept_by_writes I =
     (I init_db
      \<and> (\<forall>d e c t a tid p du now.
           I d \<and> \<not> is_processed d e c \<and> \<not> is_pending d e c \<longrightarrow>
           I (mark_pending d e c t a tid p du now))
      \<and> (\<forall>d e c t out s now. I d \<longrightarrow> I (remove_pending (mark_processed d e c t out s now) e c)))"

text \<open>
  An interpretation of the float operations for running the duration parsers on
  examples: exact rationals, and \<open>float\<close> on strings of decimal digits.
\<close>

definition digits_value :: "string \<Rightarrow> nat" where
  "digits_value s = foldl (\<lambda>n c. 10 * n + (of_char c - 48)) 0 s"

definition digits_float_ops :: "rat float_ops" where
  "digits_float_ops =
     \<lparr>float_of = (\<lambda>s. if s \<noteq> [] \<and> list_all (\<lambda>c. c \<in> set ''0123456789'') s
                        then Some (of_nat (digits_value s)) else None),
      f_of_int = of_int, fmul = (*), fadd = (+)\<rparr>"

text \<open>
  Collaborators for running the programs on examples. The hidden state is a counter
  that also serves as the clock. \<open>demo_ok\<close> accepts every job and reports it
  succeeded with two segments; with \<open>demo_down\<close> the job creation and the status query
  raise; with \<open>demo_rejecting\<close> the service reports every job failed.
\<close>

definition demo_episode :: Episode where
  "demo_episode =
     \<lparr>ep_id = ''ep-1'', ep_title = ''Episode 1'', ep_audio_url = ''http://example.com/1.mp3'',
      ep_published = 100, ep_duration = Some ''3600'', ep_description = Some ''''\<rparr>"

definition demo_channel :: Channel where
  "demo_channel =
     \<lparr>ch_name = ''demo'', ch_url = ''http://example.com/feed.xml'', ch_max_episodes = 10,
      ch_language = ''auto''\<rparr>"

definition demo_ok :: "nat external" where
  "demo_ok =
     \<lparr>config_exists = (\<lambda>x. True),
      load_config = (\<lambda>x. (Inr [demo_channel], x)),
      parse_feed = (\<lambda>url n x. (Inr [demo_episode], x)),
      submit_transcription = (\<lambda>url lang x. (Inr ''job-1'', Suc x)),
      check_transcription_status =
        (\<lambda>tid x. (Inr \<lparr>st_status = Some ''Succeeded'', st_error_message = None\<rparr>, Suc x)),
      get_transcription_result = (\<lambda>tid x. (Inr example_segments, Suc x)),
      delete_transcription = (\<lambda>tid x. (Inr (), Suc x)),
      save_output = (\<lambda>p segs x. (Inr ''output/demo/1970-01-01/Episode 1.md'', Suc x)),
      datetime_now = (\<lambda>x. x)\<rparr>"

definition demo_down :: "nat external" where
  "demo_down =
     demo_ok\<lparr>submit_transcription := (\<lambda>url lang x. (Inl (Exception ''503''), Suc x)),
             check_transcription_status := (\<lambda>tid x. (Inl (Exception ''timed out''), Suc x))\<rparr>"

definition demo_rejecting :: "nat external" where
  "demo_rejecting =
     demo_ok\<lparr>check_transcription_status :=
        (\<lambda>tid x. (Inr \<lparr>st_status = Some ''Failed'', st_error_message = Some ''bad audio''\<rparr>, Suc x))\<rparr>"

definition new_world :: "'x \<Rightarrow> 'x world" where
  "new_world x = \<lparr>db = init_db, ext = x, calls = [], logs = []\<rparr>"

definition demo_pending_db :: Database where
  \<comment> \<open>the store after \<open>demo_episode\<close> was submitted for channel \<open>demo\<close> at time 1\<close>
  "demo_pending_db =
     mark_pending init_db ''ep-1'' ''demo'' ''Episode 1'' ''http://example.com/1.mp3'' ''job-1''
       (Some 100) (Some ''3600'') 1"

definition demo_failed_db :: Database where
  \<comment> \<open>the store after that job was recorded as failed at time 2\<close>
  "demo_failed_db =
     remove_pending (mark_processed demo_pending_db ''ep-1'' ''demo'' ''Episode 1'' [] ''failed'' 2)
       ''ep-1'' ''demo''"

definition demo_done_db :: Database where
  \<comment> \<open>the store after the job of \<open>demo_pending_db\<close> was recorded as succeeded at time 2\<close>
  "demo_done_db =
     remove_pending
       (mark_processed demo_pending_db ''ep-1'' ''demo'' ''Episode 1''
          ''output/demo/1970-01-01/Episode 1.md'' ''success'' 2)
       ''ep-1'' ''demo''"



definition demo_world :: "Database \<Rightarrow> nat world" where
  "demo_world d = \<lparr>db = d, ext = 0, calls = [], logs = []\<rparr>"

section \<open>Filename sanitization\<close>

lemma set_strip_chars: "set (strip_chars cs s) \<subseteq> set s"
proof -
  have "set (dropWhile (\<lambda>c. c \<in> set cs) (rev (dropWhile (\<lambda>c. c \<in> set cs) s)))
          \<subseteq> set (rev (dropWhile (\<lambda>c. c \<in> set cs) s))"
    by (meson set_dropWhileD subsetI)
  also have "\<dots> \<subseteq> set s"
    using set_dropWhileD by fastforce
  finally show ?thesis by (simp add: strip_chars_def)
qed

lemma length_strip_chars: "length (strip_chars cs s) \<le> length s"
proof -
  have "length (strip_chars cs s) \<le> length (dropWhile (\<lambda>c. c \<in> set cs) s)"
    unfolding strip_chars_def length_rev
    by (metis length_dropWhile_le length_rev)
  also have "\<dots> \<le> length s" by (rule length_dropWhile_le)
  finally show ?thesis .
qed

lemma last_strip_chars:
  assumes "strip_chars cs s \<noteq> []"
  shows "last (strip_chars cs s) \<notin> set cs"
proof -
  let ?d = "dropWhile (\<lambda>c. c \<in> set cs) (rev (dropWhile (\<lambda>c. c \<in> set cs) s))"
  from assms have ne: "?d \<noteq> []" by (simp add: strip_chars_def)
  then have "hd ?d \<notin> set cs" by (rule hd_dropWhile)
  moreover have "last (strip_chars cs s) = hd ?d"
    using ne by (simp add: strip_chars_def last_rev)
  ultimately show ?thesis by simp
qed

text \<open>What \<open>strip\<close> takes away is a run of the given characters at each end.\<close>

lemma strip_chars_split:
  "\<exists>pre post. s = pre @ strip_chars cs s @ post \<and> set pre \<subseteq> set cs \<and> set post \<subseteq> set cs"
proof -
  let ?P = "\<lambda>c. c \<in> set cs"
  let ?ys = "dropWhile ?P s"
  have "rev ?ys = takeWhile ?P (rev ?ys) @ dropWhile ?P (rev ?ys)" by simp
  then have "rev (rev ?ys) = rev (takeWhile ?P (rev ?ys) @ dropWhile ?P (rev ?ys))" by simp
  then have "?ys = rev (dropWhile ?P (rev ?ys)) @ rev (takeWhile ?P (rev ?ys))"
    by (simp only: rev_rev_ident rev_append)
  then have ys: "?ys = strip_chars cs s @ rev (takeWhile ?P (rev ?ys))"
    by (simp only: strip_chars_def)
  have "s = takeWhile ?P s @ ?ys" by simp
  with ys have "s = takeWhile ?P s @ strip_chars cs s @ rev (takeWhile ?P (rev ?ys))" by simp
  moreover have "set (takeWhile ?P s) \<subseteq> set cs" by (auto dest: set_takeWhileD)
  moreover have "set (rev (takeWhile ?P (rev ?ys))) \<subseteq> set cs" by (auto dest: set_takeWhileD)
  ultimately show ?thesis by blast
qed

lemma hd_strip_chars:
  assumes "strip_chars cs s \<noteq> []"
  shows "hd (strip_chars cs s) \<notin> set cs"
proof -
  let ?P = "\<lambda>c. c \<in> set cs"
  let ?ys = "dropWhile ?P s"
  have "rev ?ys = takeWhile ?P (rev ?ys) @ dropWhile ?P (rev ?ys)" by simp
  then have "rev (rev ?ys) = rev (takeWhile ?P (rev ?ys) @ dropWhile ?P (rev ?ys))" by simp
  then have "?ys = rev (dropWhile ?P (rev ?ys)) @ rev (takeWhile ?P (rev ?ys))"
    by (simp only: rev_rev_ident rev_append)
  then have split: "?ys = strip_chars cs s @ rev (takeWhile ?P (rev ?ys))"
    by (simp only: strip_chars_def)
  with assms have "hd ?ys = hd (strip_chars cs s)" by (metis hd_append2)
  moreover from split assms have "?ys \<noteq> []" by (metis append_is_Nil_conv)
  then have "hd ?ys \<notin> set cs" by (rule hd_dropWhile)
  ultimately show ?thesis by simp
qed

lemma strip_chars_empty: "strip_chars cs s = [] \<longleftrightarrow> set s \<subseteq> set cs"
proof
  assume "strip_chars cs s = []"
  with strip_chars_split [of s cs] show "set s \<subseteq> set cs" by auto
next
  assume "set s \<subseteq> set cs"
  then have d: "dropWhile (\<lambda>c. c \<in> set cs) s = []"
    by (auto simp: dropWhile_eq_Nil_conv)
  show "strip_chars cs s = []" unfolding strip_chars_def d by simp
qed

lemma illegal_chars_codes: "illegal_chars = [60, 62, 58, 34, 47, 92, 124, 63, 42]"
  by (simp add: illegal_chars_def str_of_def)

lemma space_dot_codes: "str_of '' .'' = [32, 46]"
  by (simp add: str_of_def)

lemma untitled_codes: "str_of ''untitled'' = [117, 110, 116, 105, 116, 108, 101, 100]"
  by (simp add: str_of_def)

lemma sanitize_filename_core:
  "sanitize_filename name =
     (if strip_chars (str_of '' .'')
           (take 200 (filter (\<lambda>c. c \<notin> set illegal_chars \<and> \<not> in_x00_x1f c) name)) = []
      then str_of ''untitled''
      else strip_chars (str_of '' .'')
             (take 200 (filter (\<lambda>c. c \<notin> set illegal_chars \<and> \<not> in_x00_x1f c) name)))"
proof -
  have "filter (\<lambda>c. \<not> in_x00_x1f c) (filter (\<lambda>c. c \<notin> set illegal_chars) name)
      = filter (\<lambda>c. c \<notin> set illegal_chars \<and> \<not> in_x00_x1f c) name"
    by (simp add: conj_commute)
  then show ?thesis by (simp add: sanitize_filename_def Let_def)
qed

lemma untitled_chars: "\<forall>c\<in>set (str_of ''untitled''). c \<notin> set illegal_chars \<and> \<not> in_x00_x1f c"
  by (simp add: untitled_codes illegal_chars_codes in_x00_x1f_def)

lemma sanitize_filename_chars:
  assumes "c \<in> set (sanitize_filename name)"
  shows "c \<notin> set illegal_chars \<and> \<not> in_x00_x1f c"
proof -
  let ?core = "take 200 (filter (\<lambda>c. c \<notin> set illegal_chars \<and> \<not> in_x00_x1f c) name)"
  show ?thesis
  proof (cases "strip_chars (str_of '' .'') ?core = []")
    case True
    with assms have "c \<in> set (str_of ''untitled'')" by (simp add: sanitize_filename_core)
    with untitled_chars show ?thesis by blast
  next
    case False
    with assms have "c \<in> set (strip_chars (str_of '' .'') ?core)"
      by (simp add: sanitize_filename_core)
    then have "c \<in> set ?core" using set_strip_chars by fastforce
    then have "c \<in> set (filter (\<lambda>c. c \<notin> set illegal_chars \<and> \<not> in_x00_x1f c) name)"
      by (rule in_set_takeD)
    then show ?thesis by simp
  qed
qed

lemma sanitize_filename_nonempty: "sanitize_filename name \<noteq> []"
  by (simp add: sanitize_filename_core untitled_codes)

lemma sanitize_filename_length: "length (sanitize_filename name) \<le> 200"
proof -
  let ?core = "take 200 (filter (\<lambda>c. c \<notin> set illegal_chars \<and> \<not> in_x00_x1f c) name)"
  have "length (strip_chars (str_of '' .'') ?core) \<le> length ?core" by (rule length_strip_chars)
  also have "\<dots> \<le> 200" by simp
  finally have "length (strip_chars (str_of '' .'') ?core) \<le> 200" .
  then show ?thesis by (simp add: sanitize_filename_core untitled_codes)
qed

lemma sanitize_filename_ends:
  "hd (sanitize_filename name) \<notin> set (str_of '' .'')
   \<and> last (sanitize_filename name) \<notin> set (str_of '' .'')"
proof -
  let ?core = "take 200 (filter (\<lambda>c. c \<notin> set illegal_chars \<and> \<not> in_x00_x1f c) name)"
  show ?thesis
  proof (cases "strip_chars (str_of '' .'') ?core = []")
    case True
    then show ?thesis by (simp add: sanitize_filename_core untitled_codes space_dot_codes)
  next
    case False
    then show ?thesis
      using hd_strip_chars [of "str_of '' .''" ?core] last_strip_chars [of "str_of '' .''" ?core]
      by (simp add: sanitize_filename_core)
  qed
qed

lemma ascii_isspace_cases: "py_isspace c \<Longrightarrow> c < 128 \<Longrightarrow> c = 32 \<or> in_x00_x1f c"
  by (auto simp: py_isspace_def in_x00_x1f_def)

lemma sanitize_filename_all_illegal:
  assumes "set name \<subseteq> set illegal_chars"
  shows "sanitize_filename name = str_of ''untitled''"
proof -
  from assms have "filter (\<lambda>c. c \<notin> set illegal_chars \<and> \<not> in_x00_x1f c) name = []"
    by (auto simp: filter_empty_conv)
  then show ?thesis by (simp add: sanitize_filename_core strip_chars_def)
qed

lemma sanitize_filename_nothing_left:
  assumes "set (take 200 (filter (\<lambda>c. c \<notin> set illegal_chars \<and> \<not> in_x00_x1f c) name))
             \<subseteq> set (str_of '' .'')"
  shows "sanitize_filename name = str_of ''untitled''"
  using assms by (simp add: sanitize_filename_core strip_chars_empty)

lemma sanitize_filename_stripped:
  assumes "\<not> set (take 200 (filter (\<lambda>c. c \<notin> set illegal_chars \<and> \<not> in_x00_x1f c) name))
             \<subseteq> set (str_of '' .'')"
  shows "\<exists>pre post.
      take 200 (filter (\<lambda>c. c \<notin> set illegal_chars \<and> \<not> in_x00_x1f c) name)
        = pre @ sanitize_filename name @ post
      \<and> set pre \<subseteq> set (str_of '' .'') \<and> set post \<subseteq> set (str_of '' .'')"
proof -
  let ?core = "take 200 (filter (\<lambda>c. c \<notin> set illegal_chars \<and> \<not> in_x00_x1f c) name)"
  from assms have "strip_chars (str_of '' .'') ?core \<noteq> []" by (simp add: strip_chars_empty)
  then have "sanitize_filename name = strip_chars (str_of '' .'') ?core"
    by (simp add: sanitize_filename_core)
  with strip_chars_split [of ?core "str_of '' .''"] show ?thesis by simp
qed

lemma sanitize_title_example: "sanitize_filename title_example = str_of ''Test Episode 01 Special''"
  by (simp add: sanitize_filename_def title_example_def illegal_chars_codes in_x00_x1f_def
      strip_chars_def str_of_def)

text \<open>
  C8, as the code has it. For every title the result of \<open>sanitize_filename\<close> contains
  none of the characters \<open>< > : " / \ | ? *\<close> and no character from U+0000 to U+001F, is
  not empty, has at most 200 characters, and neither begins nor ends with a space or
  a dot, so with no ASCII whitespace. The title \<open>Test: Episode "01" <Special>\<close> becomes
  \<open>Test Episode 01 Special\<close>, and a title made of illegal characters only becomes
  \<open>untitled\<close>. For a title without the characters U+007F to U+009F the result is
  what is left of the title: the title without its illegal characters and without
  its characters from U+0000 to U+001F, cut to its first 200 characters, minus a run
  of spaces and dots at each end; it is \<open>untitled\<close> when that leaves nothing.
\<close>

theorem sanitize_filename_safe:
  "(\<forall>c\<in>set (sanitize_filename name). c \<notin> set illegal_chars \<and> \<not> in_x00_x1f c)
   \<and> sanitize_filename name \<noteq> []
   \<and> length (sanitize_filename name) \<le> 200
   \<and> hd (sanitize_filename name) \<notin> set (str_of '' .'')
   \<and> last (sanitize_filename name) \<notin> set (str_of '' .'')
   \<and> \<not> (py_isspace (hd (sanitize_filename name)) \<and> hd (sanitize_filename name) < 128)
   \<and> \<not> (py_isspace (last (sanitize_filename name)) \<and> last (sanitize_filename name) < 128)
   \<and> sanitize_filename title_example = str_of ''Test Episode 01 Special''
   \<and> (set name \<subseteq> set illegal_chars \<longrightarrow> sanitize_filename name = str_of ''untitled'')
   \<and> ((\<forall>c\<in>set name. \<not> (0x7F \<le> c \<and> c \<le> 0x9F)) \<longrightarrow>
        (set (take 200 (filter (\<lambda>c. c \<notin> set illegal_chars \<and> \<not> in_x00_x1f c) name))
           \<subseteq> set (str_of '' .'') \<longrightarrow>
         sanitize_filename name = str_of ''untitled'')
        \<and> (\<not> set (take 200 (filter (\<lambda>c. c \<notin> set illegal_chars \<and> \<not> in_x00_x1f c) name))
              \<subseteq> set (str_of '' .'') \<longrightarrow>
           (\<exists>pre post.
              take 200 (filter (\<lambda>c. c \<notin> set illegal_chars \<and> \<not> in_x00_x1f c) name)
                = pre @ sanitize_filename name @ post
              \<and> set pre \<subseteq> set (str_of '' .'') \<and> set post \<subseteq> set (str_of '' .''))))"
proof -
  have ne: "sanitize_filename name \<noteq> []" by (rule sanitize_filename_nonempty)
  then have "hd (sanitize_filename name) \<in> set (sanitize_filename name)"
    and "last (sanitize_filename name) \<in> set (sanitize_filename name)" by simp_all
  then have ctl: "\<not> in_x00_x1f (hd (sanitize_filename name))"
    "\<not> in_x00_x1f (last (sanitize_filename name))"
    using sanitize_filename_chars by blast+
  from sanitize_filename_ends [of name]
  have "hd (sanitize_filename name) \<noteq> 32" and "last (sanitize_filename name) \<noteq> 32"
    by (simp_all add: space_dot_codes)
  with ctl have ws: "\<not> (py_isspace (hd (sanitize_filename name)) \<and> hd (sanitize_filename name) < 128)"
    "\<not> (py_isspace (last (sanitize_filename name)) \<and> last (sanitize_filename name) < 128)"
    using ascii_isspace_cases by blast+
  show ?thesis
    using sanitize_filename_chars [of _ name] ne sanitize_filename_length [of name]
      sanitize_filename_ends [of name] ws sanitize_title_example
      sanitize_filename_all_illegal [of name] sanitize_filename_nothing_left [of name]
      sanitize_filename_stripped [of name]
    by blast
qed

theorem sanitize_filename_safe_witness:
  "set (str_of ''<>:?*'') \<subseteq> set illegal_chars
   \<and> sanitize_filename (str_of ''<>:?*'') = str_of ''untitled''
   \<and> 60 \<notin> set (sanitize_filename (str_of ''a<b''))
   \<and> set (take 200 (filter (\<lambda>c. c \<notin> set illegal_chars \<and> \<not> in_x00_x1f c) (str_of '' . '')))
        \<subseteq> set (str_of '' .'')
   \<and> sanitize_filename (str_of '' . '') = str_of ''untitled''"
proof -
  have i: "60 \<in> set illegal_chars" by (simp add: illegal_chars_codes)
  then have a: "60 \<notin> set (sanitize_filename (str_of ''a<b''))"
    using sanitize_filename_safe [of "str_of ''a<b''"] by blast
  have b: "set (str_of ''<>:?*'') \<subseteq> set illegal_chars"
    by (simp add: illegal_chars_codes str_of_def)
  have c: "set (take 200 (filter (\<lambda>c. c \<notin> set illegal_chars \<and> \<not> in_x00_x1f c) (str_of '' . '')))
        \<subseteq> set (str_of '' .'')"
    by (simp add: illegal_chars_codes in_x00_x1f_def str_of_def)
  have d: "\<forall>c\<in>set (str_of '' . ''). \<not> (0x7F \<le> c \<and> c \<le> 0x9F)"
    by (simp add: str_of_def)
  from b sanitize_filename_safe [of "str_of ''<>:?*''"]
  have e: "sanitize_filename (str_of ''<>:?*'') = str_of ''untitled''" by blast
  from c d sanitize_filename_safe [of "str_of '' . ''"]
  have "sanitize_filename (str_of '' . '') = str_of ''untitled''" by blast
  with a b c e show ?thesis by blast
qed

text \<open>
  C8, as stated, asks for a result without whitespace at its ends. \<open>strip(' .')\<close>
  removes spaces and dots, as its comment says. The no-break space U+00A0 and the
  ideographic space U+3000 are whitespace for Python, and a title that begins and
  ends with one keeps both.
\<close>

theorem sanitize_filename_keeps_outer_whitespace:
  "py_isspace 0xA0 \<and> sanitize_filename [0xA0, 0x61, 0xA0] = [0xA0, 0x61, 0xA0]
   \<and> py_isspace 0x3000 \<and> sanitize_filename [0x3000, 0x61, 0x3000] = [0x3000, 0x61, 0x3000]"
  by (simp add: py_isspace_def sanitize_filename_def illegal_chars_codes in_x00_x1f_def
      strip_chars_def space_dot_codes)

text \<open>
  The comment above the second substitution of \<open>sanitize_filename\<close> says that it
  removes the control characters. Its class ends at U+001F: the control character
  DEL, U+007F, stays in the result.
\<close>

lemma sanitize_filename_keeps_DEL:
  "control_character 0x7F \<and> sanitize_filename [0x7F] = [0x7F]"
  by (simp add: control_character_def sanitize_filename_def illegal_chars_codes in_x00_x1f_def
      strip_chars_def space_dot_codes)

section \<open>Rendering\<close>

lemma length_segments_to_json: "length (segments_to_json segments) = length segments"
  by (simp add: segments_to_json_def)

lemma format_time_0: "format_time 0 = ''00:00:00''"
  by code_simp

lemma format_time_2_5: "format_time (5 / 2) = ''00:00:02''"
  by code_simp

text \<open>
  C9. For the two segments (0.0, 2.5, hello, speaker 1) and (2.5, 5.0, world, speaker 1)
  the JSON renderer returns as many entries as there are segments, two, with the
  times 00:00:00 and 00:00:02, and the markdown renderer returns the line of hello
  with the timestamp 00:00:00, an empty line, and the line of world with the
  timestamp 00:00:02.
\<close>

theorem round_trip_rendering:
  "length (segments_to_json segments) = length segments
   \<and> length (segments_to_json example_segments) = 2
   \<and> map js_time (segments_to_json example_segments) = [''00:00:00'', ''00:00:02'']
   \<and> map js_text (segments_to_json example_segments) = [''hello'', ''world'']
   \<and> segments_to_markdown example_segments =
        ''[00:00:00] **Speaker 1**: hello'' @ [CHR 0x0A, CHR 0x0A] @ ''[00:00:02] **Speaker 1**: world''"
proof -
  have md: "segments_to_markdown example_segments =
        ''[00:00:00] **Speaker 1**: hello'' @ [CHR 0x0A, CHR 0x0A] @ ''[00:00:02] **Speaker 1**: world''"
    by code_simp
  have js: "map js_time (segments_to_json example_segments) = [''00:00:00'', ''00:00:02'']"
    by (simp add: segments_to_json_def example_segments_def format_time_0 format_time_2_5)
  have tx: "map js_text (segments_to_json example_segments) = [''hello'', ''world'']"
    by (simp add: segments_to_json_def example_segments_def)
  have "length (segments_to_json example_segments) = 2"
    by (simp add: length_segments_to_json example_segments_def)
  with md js tx length_segments_to_json [of segments] show ?thesis by simp
qed

section \<open>The two duration parsers\<close>

lemma parse_duration_same: "parse_duration F s = Transcriber_parse_duration F s"
  unfolding parse_duration_def Transcriber_parse_duration_def Let_def by (rule refl)

lemma parse_duration_not_PT:
  "s = [] \<or> \<not> startswith s ''PT'' \<Longrightarrow> parse_duration F s = Inr (f_of_int F 0)"
  by (auto simp: parse_duration_def)

text \<open>
  C10. On every string, and under every interpretation of \<open>float\<close> and of the float
  arithmetic, \<open>parse_duration\<close> of query.py and \<open>Transcriber._parse_duration\<close> return the
  same value or raise the same exception; on a string that is empty or does not
  start with \<open>PT\<close> both return 0.0.
\<close>

theorem duration_parsers_agree:
  "parse_duration F s = Transcriber_parse_duration F s
   \<and> (s = [] \<or> \<not> startswith s ''PT'' \<longrightarrow>
        parse_duration F s = Inr (f_of_int F 0) \<and> Transcriber_parse_duration F s = Inr (f_of_int F 0))"
  using parse_duration_same [of F s] parse_duration_not_PT [of s F] by auto

theorem duration_parsers_agree_witness:
  "\<not> startswith ''1H30M'' ''PT''
   \<and> parse_duration digits_float_ops ''1H30M'' = Inr 0
   \<and> Transcriber_parse_duration digits_float_ops ''1H30M'' = Inr 0
   \<and> Transcriber_parse_duration digits_float_ops ''PT1H2M3S'' = Inr 3723
   \<and> Transcriber_parse_duration digits_float_ops ''PT1H2H'' = Inl ValueError"
proof -
  have a: "\<not> startswith ''1H30M'' ''PT''" by (simp add: startswith_def)
  have b: "parse_duration digits_float_ops ''PT1H2M3S'' = Inr 3723"
    by (simp add: parse_duration_def startswith_def bind_result_def unpack2_def py_float_def
        digits_float_ops_def digits_value_def)
  have c: "parse_duration digits_float_ops ''PT1H2H'' = Inl ValueError"
    by (simp add: parse_duration_def startswith_def bind_result_def unpack2_def py_float_def
        digits_float_ops_def digits_value_def)
  show ?thesis
    using a b c duration_parsers_agree [of digits_float_ops "''1H30M''"]
      duration_parsers_agree [of digits_float_ops "''PT1H2M3S''"]
      duration_parsers_agree [of digits_float_ops "''PT1H2H''"]
    by (simp add: digits_float_ops_def)
qed

section \<open>The store\<close>

lemma is_processed_iff:
  "is_processed d e c \<longleftrightarrow>
     (\<exists>r\<in>set (processed_episodes d). pe_episode_id r = e \<and> pe_channel r = c \<and> pe_status r = ''success'')"
  by (auto simp: is_processed_def filter_empty_conv)

lemma is_pending_iff:
  "is_pending d e c \<longleftrightarrow> (\<exists>r\<in>set (pending_episodes d). pn_episode_id r = e \<and> pn_channel r = c)"
  by (auto simp: is_pending_def filter_empty_conv)


lemma is_pending_mark_pending:
  "is_pending (mark_pending d e c t a tid p du now) e' c' \<longleftrightarrow> (e' = e \<and> c' = c) \<or> is_pending d e' c'"
  by (auto simp: is_pending_iff mark_pending_def)

lemma is_processed_mark_pending:
  "is_processed (mark_pending d e c t a tid p du now) e' c' = is_processed d e' c'"
  by (simp add: is_processed_def mark_pending_def)

lemma is_pending_mark_processed:
  "is_pending (mark_processed d e c t out s now) e' c' = is_pending d e' c'"
  by (simp add: is_pending_def mark_processed_def)

lemma is_processed_mark_processed:
  "is_processed (mark_processed d e c t out s now) e' c' \<longleftrightarrow>
     (if e' = e \<and> c' = c then s = ''success'' else is_processed d e' c')"
  by (auto simp: is_processed_iff mark_processed_def)

lemma is_pending_remove_pending:
  "is_pending (remove_pending d e c) e' c' \<longleftrightarrow> \<not> (e' = e \<and> c' = c) \<and> is_pending d e' c'"
  by (auto simp: is_pending_iff remove_pending_def)

lemma is_processed_remove_pending:
  "is_processed (remove_pending d e c) e' c' = is_processed d e' c'"
  by (simp add: is_processed_def remove_pending_def)

lemma pending_rows_mark_pending_same:
  "pending_rows (mark_pending d e c t a tid p du now) e c =
     [\<lparr>pn_id = pending_seq d + 1, pn_episode_id = e, pn_channel = c, pn_title = t,
       pn_audio_url = a, pn_transcription_id = tid, pn_submitted_at = now, pn_published = p,
       pn_duration = du\<rparr>]"
  by (simp add: pending_rows_def mark_pending_def filter_empty_conv)

lemma processed_rows_mark_processed_same:
  "processed_rows (mark_processed d e c t out s now) e c =
     [\<lparr>pe_id = processed_seq d + 1, pe_episode_id = e, pe_channel = c, pe_title = t,
       pe_processed_at = now, pe_status = s, pe_output_path = out\<rparr>]"
  by (simp add: processed_rows_def mark_processed_def filter_empty_conv)

lemma processed_rows_mark_processed_other:
  "\<not> (e' = e \<and> c' = c) \<Longrightarrow>
     processed_rows (mark_processed d e c t out s now) e' c' = processed_rows d e' c'"
  by (auto simp: processed_rows_def mark_processed_def intro: filter_cong)




lemma distinct_replace:
  assumes "distinct (map k rows)" and "k new = key"
  shows "distinct (map k (filter (\<lambda>r. k r \<noteq> key) rows @ [new]))"
  using assms by (auto simp: distinct_map_filter)

lemma unique_keys_init: "unique_keys init_db"
  by (simp add: unique_keys_def init_db_def)

lemma unique_keys_mark_pending:
  assumes "unique_keys d"
  shows "unique_keys (mark_pending d e c t a tid p du now)"
proof -
  let ?k = "\<lambda>r. (pn_episode_id r, pn_channel r)"
  let ?new = "\<lparr>pn_id = pending_seq d + 1, pn_episode_id = e, pn_channel = c, pn_title = t,
       pn_audio_url = a, pn_transcription_id = tid, pn_submitted_at = now, pn_published = p,
       pn_duration = du\<rparr>"
  from assms have "distinct (map ?k (pending_episodes d))" by (simp add: unique_keys_def)
  then have "distinct (map ?k (filter (\<lambda>r. ?k r \<noteq> (e, c)) (pending_episodes d) @ [?new]))"
    by (rule distinct_replace) simp
  moreover have "(\<lambda>r. ?k r \<noteq> (e, c)) = (\<lambda>r. \<not> (pn_episode_id r = e \<and> pn_channel r = c))"
    by auto
  ultimately show ?thesis using assms by (simp add: unique_keys_def mark_pending_def)
qed

lemma unique_keys_mark_processed:
  assumes "unique_keys d"
  shows "unique_keys (mark_processed d e c t out s now)"
proof -
  let ?k = "\<lambda>r. (pe_episode_id r, pe_channel r)"
  let ?new = "\<lparr>pe_id = processed_seq d + 1, pe_episode_id = e, pe_channel = c, pe_title = t,
       pe_processed_at = now, pe_status = s, pe_output_path = out\<rparr>"
  from assms have "distinct (map ?k (processed_episodes d))" by (simp add: unique_keys_def)
  then have "distinct (map ?k (filter (\<lambda>r. ?k r \<noteq> (e, c)) (processed_episodes d) @ [?new]))"
    by (rule distinct_replace) simp
  moreover have "(\<lambda>r. ?k r \<noteq> (e, c)) = (\<lambda>r. \<not> (pe_episode_id r = e \<and> pe_channel r = c))"
    by auto
  ultimately show ?thesis using assms by (simp add: unique_keys_def mark_processed_def)
qed

lemma unique_keys_remove_pending:
  "unique_keys d \<Longrightarrow> unique_keys (remove_pending d e c)"
  by (simp add: unique_keys_def remove_pending_def distinct_map_filter)

text \<open>
  C6. \<open>mark_processed\<close> leaves the pending table as it is, rows and counter, and so
  what \<open>is_pending\<close> answers for every identity, this one included. In the processed
  table the rows of the other identities stay, and this identity has exactly one row
  afterwards: the new one, with the time of the call as \<open>processed_at\<close>. A pending
  identity stays pending through \<open>mark_pending\<close> as well; \<open>remove_pending\<close> is what
  removes it, and it removes the rows of its identity only.
\<close>

theorem mark_processed_frames_pending:
  "pending_episodes (mark_processed d e c t out s now) = pending_episodes d
   \<and> pending_seq (mark_processed d e c t out s now) = pending_seq d
   \<and> is_pending (mark_processed d e c t out s now) e' c' = is_pending d e' c'
   \<and> processed_rows (mark_processed d e c t out s now) e c =
        [\<lparr>pe_id = processed_seq d + 1, pe_episode_id = e, pe_channel = c, pe_title = t,
          pe_processed_at = now, pe_status = s, pe_output_path = out\<rparr>]
   \<and> (\<not> (e' = e \<and> c' = c) \<longrightarrow>
        processed_rows (mark_processed d e c t out s now) e' c' = processed_rows d e' c')
   \<and> (is_pending d e' c' \<longrightarrow> is_pending (mark_pending d e c t a tid p du now) e' c')
   \<and> \<not> is_pending (remove_pending d e c) e c
   \<and> (\<not> (e' = e \<and> c' = c) \<longrightarrow> pending_rows (remove_pending d e c) e' c' = pending_rows d e' c')
   \<and> processed_episodes (remove_pending d e c) = processed_episodes d"
proof -
  have "\<not> (e' = e \<and> c' = c) \<Longrightarrow> pending_rows (remove_pending d e c) e' c' = pending_rows d e' c'"
    by (auto simp: pending_rows_def remove_pending_def intro: filter_cong)
  moreover have "pending_episodes (mark_processed d e c t out s now) = pending_episodes d"
    and "pending_seq (mark_processed d e c t out s now) = pending_seq d"
    and "processed_episodes (remove_pending d e c) = processed_episodes d"
    by (simp_all add: mark_processed_def remove_pending_def)
  ultimately show ?thesis
    using is_pending_mark_processed [of d e c t out s now e' c']
      processed_rows_mark_processed_same [of d e c t out s now]
      processed_rows_mark_processed_other [of e' e c' c d t out s now]
      is_pending_mark_pending [of d e c t a tid p du now e' c']
      is_pending_remove_pending [of d e c e c]
    by simp
qed

theorem mark_processed_frames_pending_witness:
  "is_pending demo_pending_db ''ep-1'' ''demo''
   \<and> is_pending (mark_processed demo_pending_db ''ep-1'' ''demo'' ''Episode 1'' ''out.md'' ''success'' 5)
        ''ep-1'' ''demo''
   \<and> is_pending (mark_pending demo_pending_db ''ep-2'' ''demo'' ''Episode 2'' ''u'' ''job-2'' None None 6)
        ''ep-1'' ''demo''
   \<and> \<not> (''ep-1'' = ''ep-2'' \<and> ''demo'' = ''demo'')
   \<and> processed_rows (mark_processed demo_failed_db ''ep-2'' ''demo'' ''Episode 2'' ''out.md'' ''success'' 5)
        ''ep-1'' ''demo'' = processed_rows demo_failed_db ''ep-1'' ''demo''
   \<and> pending_rows (remove_pending demo_pending_db ''ep-2'' ''demo'') ''ep-1'' ''demo''
        = pending_rows demo_pending_db ''ep-1'' ''demo''"
proof -
  have p: "is_pending demo_pending_db ''ep-1'' ''demo''"
    by (simp add: demo_pending_db_def is_pending_def mark_pending_def init_db_def)
  have n: "\<not> (''ep-1'' = ''ep-2'' \<and> ''demo'' = ''demo'')" by simp
  show ?thesis
    using p n
      mark_processed_frames_pending [of demo_pending_db "''ep-1''" "''demo''" "''Episode 1''"
        "''out.md''" "''success''" 5 "''ep-1''" "''demo''"]
      mark_processed_frames_pending [of demo_pending_db "''ep-2''" "''demo''" "''Episode 2''" _ _
        6 "''ep-1''" "''demo''" "''u''" "''job-2''" None None]
      mark_processed_frames_pending [of demo_failed_db "''ep-2''" "''demo''" "''Episode 2''"
        "''out.md''" "''success''" 5 "''ep-1''" "''demo''"]
    by simp
qed

section \<open>Submission\<close>

lemma logger_fields:
  "db (logger l w) = db w" "ext (logger l w) = ext w" "calls (logger l w) = calls w"
  "logs (logger l w) = logs w @ [l]"
  by (simp_all add: logger_def)

lemma calling_fields:
  "fst (calling c f w) = fst (f (ext w))"
  "db (snd (calling c f w)) = db w"
  "ext (snd (calling c f w)) = snd (f (ext w))"
  "calls (snd (calling c f w)) = calls w @ [c]"
  "logs (snd (calling c f w)) = logs w"
  by (simp_all add: calling_def split: prod.splits)





text \<open>What a submission that goes through to the service does, in both programs.\<close>

lemma single_attempt:
  assumes "\<not> is_processed (db w) (ep_id ep) ch" and "\<not> is_pending (db w) (ep_id ep) ch"
  shows "process_single_rss_episode X ch lang ep w =
     (case submit_transcription X (ep_audio_url ep) lang (ext w) of
        (Inl e, x) \<Rightarrow>
          (0, \<lparr>db = db w, ext = x,
               calls = calls w @ [Call_submit_transcription (ep_audio_url ep) lang],
               logs = logs w @ [Failed_to_submit e]\<rparr>)
      | (Inr tid, x) \<Rightarrow>
          (1, \<lparr>db = mark_pending (db w) (ep_id ep) ch (ep_title ep) (ep_audio_url ep) tid
                      (Some (ep_published ep)) (ep_duration ep) (datetime_now X x),
               ext = x,
               calls = calls w @ [Call_submit_transcription (ep_audio_url ep) lang],
               logs = logs w @ [Submitted (ep_title ep) tid]\<rparr>))"
  using assms
  by (simp add: process_single_rss_episode_def calling_def logger_def split: prod.splits sum.splits)

lemma config_attempt:
  assumes "\<not> is_processed (db w) (ep_id ep) (ch_name chan)"
    and "\<not> is_pending (db w) (ep_id ep) (ch_name chan)"
  shows "process_config_episode X chan (n, k, w) ep =
     (case submit_transcription X (ep_audio_url ep) (ch_language chan) (ext w) of
        (Inl e, x) \<Rightarrow>
          (n, k, \<lparr>db = db w, ext = x,
               calls = calls w @ [Call_submit_transcription (ep_audio_url ep) (ch_language chan)],
               logs = logs w @ [Failed e]\<rparr>)
      | (Inr tid, x) \<Rightarrow>
          (n + 1, k,
           \<lparr>db = mark_pending (db w) (ep_id ep) (ch_name chan) (ep_title ep) (ep_audio_url ep) tid
                      (Some (ep_published ep)) (ep_duration ep) (datetime_now X x),
               ext = x,
               calls = calls w @ [Call_submit_transcription (ep_audio_url ep) (ch_language chan)],
               logs = logs w @ [Submitted_to (take 40 (ep_title ep)) tid]\<rparr>))"
  using assms
  by (simp add: process_config_episode_def calling_def logger_def split: prod.splits sum.splits)





lemmas demo_defs =
  demo_ok_def demo_down_def demo_rejecting_def demo_episode_def demo_channel_def demo_world_def
  new_world_def demo_pending_db_def demo_failed_db_def demo_done_db_def init_db_def

lemmas store_defs =
  is_processed_def is_pending_def mark_pending_def mark_processed_def remove_pending_def
  pending_rows_def processed_rows_def get_pending_def

lemma demo_done_db_processed: "is_processed demo_done_db ''ep-1'' ''demo''"
  by (simp add: demo_defs store_defs)

lemma demo_pending_db_pending:
  "\<not> is_processed demo_pending_db ''ep-1'' ''demo'' \<and> is_pending demo_pending_db ''ep-1'' ''demo''"
  by (simp add: demo_defs store_defs)

lemma demo_first_submission:
  "process_single_rss_episode demo_ok ''demo'' ''auto'' demo_episode (new_world 0) =
     (1, \<lparr>db = demo_pending_db, ext = 1,
          calls = [Call_submit_transcription ''http://example.com/1.mp3'' ''auto''],
          logs = [Submitted ''Episode 1'' ''job-1'']\<rparr>)"
  by (simp add: process_single_rss_episode_def calling_def logger_def demo_defs store_defs)



lemma single_failure_keeps_db:
  assumes "fst (submit_transcription X (ep_audio_url ep) lang (ext w)) = Inl e"
  shows "fst (process_single_rss_episode X ch lang ep w) = 0
    \<and> db (snd (process_single_rss_episode X ch lang ep w)) = db w"
proof (cases "is_processed (db w) (ep_id ep) ch \<or> is_pending (db w) (ep_id ep) ch")
  case True
  then show ?thesis by (auto simp: process_single_rss_episode_def logger_fields)
next
  case False
  then have "\<not> is_processed (db w) (ep_id ep) ch" and "\<not> is_pending (db w) (ep_id ep) ch"
    by simp_all
  from single_attempt [OF this, of X lang] assms show ?thesis
    by (cases "submit_transcription X (ep_audio_url ep) lang (ext w)") simp
qed

lemma single_write_needs_handle:
  assumes "db (snd (process_single_rss_episode X ch lang ep w)) \<noteq> db w"
  shows "\<exists>tid. fst (submit_transcription X (ep_audio_url ep) lang (ext w)) = Inr tid
    \<and> map pn_transcription_id
         (pending_rows (db (snd (process_single_rss_episode X ch lang ep w))) (ep_id ep) ch) = [tid]
    \<and> calls (snd (process_single_rss_episode X ch lang ep w)) =
         calls w @ [Call_submit_transcription (ep_audio_url ep) lang]"
proof (cases "is_processed (db w) (ep_id ep) ch \<or> is_pending (db w) (ep_id ep) ch")
  case True
  with assms show ?thesis by (auto simp: process_single_rss_episode_def logger_fields)
next
  case False
  then have n: "\<not> is_processed (db w) (ep_id ep) ch" "\<not> is_pending (db w) (ep_id ep) ch"
    by simp_all
  obtain r x where sx: "submit_transcription X (ep_audio_url ep) lang (ext w) = (r, x)"
    by (cases "submit_transcription X (ep_audio_url ep) lang (ext w)")
  show ?thesis
  proof (cases r)
    case (Inl e)
    with sx single_attempt [OF n, of X lang] assms show ?thesis by simp
  next
    case (Inr tid)
    with sx single_attempt [OF n, of X lang] show ?thesis
      by (simp add: pending_rows_mark_pending_same)
  qed
qed

lemma config_failure_keeps_db:
  assumes "fst (submit_transcription X (ep_audio_url ep) (ch_language chan) (ext w)) = Inl e"
  shows "\<exists>k' w'. process_config_episode X chan (n, k, w) ep = (n, k', w') \<and> db w' = db w"
proof (cases "is_processed (db w) (ep_id ep) (ch_name chan) \<or> is_pending (db w) (ep_id ep) (ch_name chan)")
  case True
  then show ?thesis by (auto simp: process_config_episode_def logger_fields)
next
  case False
  then have "\<not> is_processed (db w) (ep_id ep) (ch_name chan)"
    and "\<not> is_pending (db w) (ep_id ep) (ch_name chan)"
    by simp_all
  from config_attempt [OF this, of X n k] assms show ?thesis
    by (cases "submit_transcription X (ep_audio_url ep) (ch_language chan) (ext w)") simp
qed

lemma config_write_needs_handle:
  assumes "process_config_episode X chan (n, k, w) ep = (n', k', w')" and "db w' \<noteq> db w"
  shows "\<exists>tid. fst (submit_transcription X (ep_audio_url ep) (ch_language chan) (ext w)) = Inr tid
    \<and> map pn_transcription_id (pending_rows (db w') (ep_id ep) (ch_name chan)) = [tid]
    \<and> calls w' = calls w @ [Call_submit_transcription (ep_audio_url ep) (ch_language chan)]"
proof (cases "is_processed (db w) (ep_id ep) (ch_name chan) \<or> is_pending (db w) (ep_id ep) (ch_name chan)")
  case True
  with assms show ?thesis
    by (auto simp: process_config_episode_def logger_fields split: if_splits)
next
  case False
  then have nn: "\<not> is_processed (db w) (ep_id ep) (ch_name chan)"
    "\<not> is_pending (db w) (ep_id ep) (ch_name chan)"
    by simp_all
  obtain r x where sx: "submit_transcription X (ep_audio_url ep) (ch_language chan) (ext w) = (r, x)"
    by (cases "submit_transcription X (ep_audio_url ep) (ch_language chan) (ext w)")
  show ?thesis
  proof (cases r)
    case (Inl e)
    with sx config_attempt [OF nn, of X n k] assms show ?thesis by auto
  next
    case (Inr tid)
    with sx config_attempt [OF nn, of X n k] assms show ?thesis
      by (auto simp: pending_rows_mark_pending_same)
  qed
qed

text \<open>
  C2. In both programs, when the call that creates the job raises, nothing is
  submitted and the store after the episode is the store before it. The other way
  round, when the store changed, the call returned a job handle, the call is the one
  call made, and the one pending row of the identity holds that handle.
\<close>

theorem no_partial_state_on_submit_failure:
  "(fst (submit_transcription X (ep_audio_url ep) lang (ext w)) = Inl e \<longrightarrow>
      fst (process_single_rss_episode X ch lang ep w) = 0
      \<and> db (snd (process_single_rss_episode X ch lang ep w)) = db w)
   \<and> (db (snd (process_single_rss_episode X ch lang ep w)) \<noteq> db w \<longrightarrow>
       (\<exists>tid. fst (submit_transcription X (ep_audio_url ep) lang (ext w)) = Inr tid
          \<and> map pn_transcription_id
               (pending_rows (db (snd (process_single_rss_episode X ch lang ep w))) (ep_id ep) ch) = [tid]
          \<and> calls (snd (process_single_rss_episode X ch lang ep w)) =
               calls w @ [Call_submit_transcription (ep_audio_url ep) lang]))
   \<and> (fst (submit_transcription X (ep_audio_url ep) (ch_language chan) (ext w)) = Inl e \<longrightarrow>
       (\<exists>k' w'. process_config_episode X chan (n, k, w) ep = (n, k', w') \<and> db w' = db w))
   \<and> (process_config_episode X chan (n, k, w) ep = (n', k', w') \<and> db w' \<noteq> db w \<longrightarrow>
       (\<exists>tid. fst (submit_transcription X (ep_audio_url ep) (ch_language chan) (ext w)) = Inr tid
          \<and> map pn_transcription_id (pending_rows (db w') (ep_id ep) (ch_name chan)) = [tid]
          \<and> calls w' = calls w @ [Call_submit_transcription (ep_audio_url ep) (ch_language chan)]))"
  using single_failure_keeps_db [of X ep lang w e ch] single_write_needs_handle [of X ch lang ep w]
    config_failure_keeps_db [of X ep chan w e n k]
    config_write_needs_handle [of X chan n k w ep n' k' w']
  by blast

theorem no_partial_state_on_submit_failure_witness:
  "fst (submit_transcription demo_down (ep_audio_url demo_episode) ''auto'' (ext (new_world 0)))
     = Inl (Exception ''503'')
   \<and> fst (process_single_rss_episode demo_down ''demo'' ''auto'' demo_episode (new_world 0)) = 0
   \<and> db (snd (process_single_rss_episode demo_down ''demo'' ''auto'' demo_episode (new_world 0))) = init_db
   \<and> \<not> is_pending (db (snd (process_single_rss_episode demo_down ''demo'' ''auto'' demo_episode (new_world 0))))
        ''ep-1'' ''demo''
   \<and> db (snd (process_single_rss_episode demo_ok ''demo'' ''auto'' demo_episode (new_world 0))) \<noteq> init_db
   \<and> map pn_transcription_id
        (pending_rows (db (snd (process_single_rss_episode demo_ok ''demo'' ''auto'' demo_episode (new_world 0))))
           ''ep-1'' ''demo'') = [''job-1'']"
proof -
  have a: "fst (submit_transcription demo_down (ep_audio_url demo_episode) ''auto'' (ext (new_world 0)))
     = Inl (Exception ''503'')"
    by (simp add: demo_defs)
  have b: "db (snd (process_single_rss_episode demo_ok ''demo'' ''auto'' demo_episode (new_world 0)))
     \<noteq> db (new_world 0)"
    by (simp add: demo_first_submission) (simp add: demo_defs store_defs)
  have c: "fst (submit_transcription demo_ok (ep_audio_url demo_episode) ''auto'' (ext (new_world 0)))
     = Inr ''job-1''"
    by (simp add: demo_defs)
  have d: "db (new_world 0) = init_db" "ep_id demo_episode = ''ep-1''"
    by (simp_all add: demo_defs)
  have e: "\<not> is_pending init_db ''ep-1'' ''demo''" by (simp add: init_db_def is_pending_def)
  show ?thesis
    using a b c e
      no_partial_state_on_submit_failure [of demo_down demo_episode "''auto''" "new_world 0"
        "Exception ''503''" "''demo''"]
      no_partial_state_on_submit_failure [of demo_ok demo_episode "''auto''" "new_world 0" _ "''demo''"]
    by (auto simp: d)
qed

lemma failed_rows_not_processed:
  assumes "\<forall>r\<in>set (processed_rows d e c). pe_status r = ''failed''"
  shows "\<not> is_processed d e c"
proof
  assume "is_processed d e c"
  then obtain r where r: "r \<in> set (processed_episodes d)" "pe_episode_id r = e" "pe_channel r = c"
    "pe_status r = ''success''"
    by (auto simp: is_processed_iff)
  then have "r \<in> set (processed_rows d e c)" by (simp add: processed_rows_def)
  with assms have "pe_status r = ''failed''" by blast
  with r(4) show False by simp
qed

lemma single_failed_resubmitted:
  assumes "\<forall>r\<in>set (processed_rows (db w) (ep_id ep) ch). pe_status r = ''failed''"
    and "\<not> is_pending (db w) (ep_id ep) ch"
  shows "calls (snd (process_single_rss_episode X ch lang ep w)) =
           calls w @ [Call_submit_transcription (ep_audio_url ep) lang]
    \<and> (\<forall>tid x. submit_transcription X (ep_audio_url ep) lang (ext w) = (Inr tid, x) \<longrightarrow>
          fst (process_single_rss_episode X ch lang ep w) = 1
          \<and> is_pending (db (snd (process_single_rss_episode X ch lang ep w))) (ep_id ep) ch)"
proof -
  from assms(1) have np: "\<not> is_processed (db w) (ep_id ep) ch" by (rule failed_rows_not_processed)
  obtain r x where sx: "submit_transcription X (ep_audio_url ep) lang (ext w) = (r, x)"
    by (cases "submit_transcription X (ep_audio_url ep) lang (ext w)")
  show ?thesis
  proof (cases r)
    case (Inl e)
    with sx single_attempt [OF np assms(2), of X lang] show ?thesis by simp
  next
    case (Inr tid)
    with sx single_attempt [OF np assms(2), of X lang] show ?thesis
      by (simp add: is_pending_mark_pending)
  qed
qed

lemma config_failed_resubmitted:
  assumes "\<forall>r\<in>set (processed_rows (db w) (ep_id ep) (ch_name chan)). pe_status r = ''failed''"
    and "\<not> is_pending (db w) (ep_id ep) (ch_name chan)"
  shows "calls (snd (snd (process_config_episode X chan (n, k, w) ep))) =
           calls w @ [Call_submit_transcription (ep_audio_url ep) (ch_language chan)]
    \<and> fst (snd (process_config_episode X chan (n, k, w) ep)) = k"
proof -
  from assms(1) have np: "\<not> is_processed (db w) (ep_id ep) (ch_name chan)"
    by (rule failed_rows_not_processed)
  obtain r x where sx: "submit_transcription X (ep_audio_url ep) (ch_language chan) (ext w) = (r, x)"
    by (cases "submit_transcription X (ep_audio_url ep) (ch_language chan) (ext w)")
  show ?thesis
  proof (cases r)
    case (Inl e)
    with sx config_attempt [OF np assms(2), of X n k] show ?thesis by simp
  next
    case (Inr tid)
    with sx config_attempt [OF np assms(2), of X n k] show ?thesis by simp
  qed
qed

lemma demo_failed_db_rows:
  "processed_rows demo_failed_db ''ep-1'' ''demo'' =
     [\<lparr>pe_id = 1, pe_episode_id = ''ep-1'', pe_channel = ''demo'', pe_title = ''Episode 1'',
       pe_processed_at = 2, pe_status = ''failed'', pe_output_path = []\<rparr>]
   \<and> \<not> is_pending demo_failed_db ''ep-1'' ''demo''"
  by (simp add: demo_defs store_defs)

text \<open>
  C5. \<open>is_processed\<close> is true exactly when the processed table has a row of the
  identity with status success. So an identity whose processed rows all have status
  failed is not skipped as done: it is not processed, and when it is not pending
  either, both programs call the service to create a job for it (the skip counter of
  the batch stays), and the single-feed program records the job as pending when the
  call returns a handle.
\<close>

theorem failed_is_not_terminal_for_dedup:
  "(is_processed d e c \<longleftrightarrow>
      (\<exists>r\<in>set (processed_episodes d). pe_episode_id r = e \<and> pe_channel r = c \<and> pe_status r = ''success''))
   \<and> ((\<forall>r\<in>set (processed_rows (db w) (ep_id ep) ch). pe_status r = ''failed'') \<longrightarrow>
        \<not> is_processed (db w) (ep_id ep) ch)
   \<and> ((\<forall>r\<in>set (processed_rows (db w) (ep_id ep) ch). pe_status r = ''failed'')
        \<and> \<not> is_pending (db w) (ep_id ep) ch \<longrightarrow>
        calls (snd (process_single_rss_episode X ch lang ep w)) =
          calls w @ [Call_submit_transcription (ep_audio_url ep) lang]
        \<and> (\<forall>tid x. submit_transcription X (ep_audio_url ep) lang (ext w) = (Inr tid, x) \<longrightarrow>
              fst (process_single_rss_episode X ch lang ep w) = 1
              \<and> is_pending (db (snd (process_single_rss_episode X ch lang ep w))) (ep_id ep) ch))
   \<and> ((\<forall>r\<in>set (processed_rows (db w) (ep_id ep) (ch_name chan)). pe_status r = ''failed'')
        \<and> \<not> is_pending (db w) (ep_id ep) (ch_name chan) \<longrightarrow>
        calls (snd (snd (process_config_episode X chan (n, k, w) ep))) =
          calls w @ [Call_submit_transcription (ep_audio_url ep) (ch_language chan)]
        \<and> fst (snd (process_config_episode X chan (n, k, w) ep)) = k)"
  using is_processed_iff [of d e c] failed_rows_not_processed [of "db w" "ep_id ep" ch]
    single_failed_resubmitted [of w ep ch X lang] config_failed_resubmitted [of w ep chan X n k]
  by blast

theorem failed_is_not_terminal_for_dedup_witness:
  "map pe_status (processed_rows (db (demo_world demo_failed_db)) (ep_id demo_episode) ''demo'') = [''failed'']
   \<and> \<not> is_pending (db (demo_world demo_failed_db)) (ep_id demo_episode) ''demo''
   \<and> \<not> is_processed (db (demo_world demo_failed_db)) (ep_id demo_episode) ''demo''
   \<and> calls (snd (process_single_rss_episode demo_ok ''demo'' ''auto'' demo_episode (demo_world demo_failed_db)))
       = [Call_submit_transcription ''http://example.com/1.mp3'' ''auto'']
   \<and> fst (process_single_rss_episode demo_ok ''demo'' ''auto'' demo_episode (demo_world demo_failed_db)) = 1
   \<and> is_pending (db (snd (process_single_rss_episode demo_ok ''demo'' ''auto'' demo_episode
        (demo_world demo_failed_db)))) ''ep-1'' ''demo''
   \<and> is_processed demo_done_db ''ep-1'' ''demo''"
proof -
  have d: "db (demo_world demo_failed_db) = demo_failed_db" "ep_id demo_episode = ''ep-1''"
    "calls (demo_world demo_failed_db) = []" "ext (demo_world demo_failed_db) = 0"
    "ep_audio_url demo_episode = ''http://example.com/1.mp3''"
    by (simp_all add: demo_world_def demo_episode_def)
  have a: "\<forall>r\<in>set (processed_rows (db (demo_world demo_failed_db)) (ep_id demo_episode) ''demo'').
      pe_status r = ''failed''"
    by (simp add: d demo_failed_db_rows)
  have b: "\<not> is_pending (db (demo_world demo_failed_db)) (ep_id demo_episode) ''demo''"
    by (simp add: d demo_failed_db_rows)
  have c: "submit_transcription demo_ok ''http://example.com/1.mp3'' ''auto'' 0 = (Inr ''job-1'', 1)"
    by (simp add: demo_ok_def)
  have m: "map pe_status (processed_rows (db (demo_world demo_failed_db)) (ep_id demo_episode) ''demo'')
      = [''failed'']"
    by (simp add: d demo_failed_db_rows)
  from a b c
    failed_is_not_terminal_for_dedup [of demo_done_db "''ep-1''" "''demo''"
      "demo_world demo_failed_db" demo_episode "''demo''" demo_ok "''auto''"]
  have "\<not> is_processed (db (demo_world demo_failed_db)) (ep_id demo_episode) ''demo''
    \<and> calls (snd (process_single_rss_episode demo_ok ''demo'' ''auto'' demo_episode (demo_world demo_failed_db)))
       = [Call_submit_transcription ''http://example.com/1.mp3'' ''auto'']
    \<and> fst (process_single_rss_episode demo_ok ''demo'' ''auto'' demo_episode (demo_world demo_failed_db)) = 1
    \<and> is_pending (db (snd (process_single_rss_episode demo_ok ''demo'' ''auto'' demo_episode
        (demo_world demo_failed_db)))) ''ep-1'' ''demo''"
    by (simp add: d)
  with m b demo_done_db_processed show ?thesis by simp
qed

section \<open>Reconciliation\<close>

lemma resolve_fields:
  "db (resolve X p out s w) =
     remove_pending
       (mark_processed (db w) (pn_episode_id p) (pn_channel p) (pn_title p) out s (datetime_now X (ext w)))
       (pn_episode_id p) (pn_channel p)"
  "ext (resolve X p out s w) = ext w"
  "calls (resolve X p out s w) = calls w"
  "logs (resolve X p out s w) = logs w"
  by (simp_all add: resolve_def Let_def)


lemma query_main_step_resolved:
  assumes "query_main_step X (c, s, f, w) p = (c', s', f', w')" and "db w' \<noteq> db w"
  shows "\<not> is_pending (db w') (pn_episode_id p) (pn_channel p)"
  using assms
  by (auto simp: query_main_step_def Let_def calling_def logger_def resolve_fields
      is_pending_remove_pending
      split: prod.splits sum.splits option.splits if_splits)

lemma query_main_step_completed:
  assumes "query_main_step X (c, s, f, w) p = (c', s', f', w')" and "last (logs w') = Completed out"
  shows "is_processed (db w') (pn_episode_id p) (pn_channel p)
    \<and> \<not> is_pending (db w') (pn_episode_id p) (pn_channel p) \<and> c' = c + 1"
  using assms
  by (auto simp: query_main_step_def Let_def calling_def logger_def resolve_fields
      is_pending_remove_pending is_processed_remove_pending is_processed_mark_processed
      split: prod.splits sum.splits option.splits if_splits)

lemma query_main_step_terminal:
  assumes "query_main_step X (c, s, f, w) p = (c', s', f', w')"
    and "Completed out \<in> set (drop (length (logs w)) (logs w'))
       \<or> No_segments_found \<in> set (drop (length (logs w)) (logs w'))
       \<or> Failed_remotely m \<in> set (drop (length (logs w)) (logs w'))"
  shows "\<not> is_pending (db w') (pn_episode_id p) (pn_channel p)"
  using assms
  by (auto simp: query_main_step_def Let_def calling_def logger_def resolve_fields
      is_pending_remove_pending
      split: prod.splits sum.splits option.splits if_splits)

lemma query_main_step_kept:
  assumes "kept_by_writes I" and "I (db w)"
    and "query_main_step X (c, s, f, w) p = (c', s', f', w')"
  shows "I (db w')"
proof -
  from assms(1,2) have "\<And>e ch t out st now. I (remove_pending (mark_processed (db w) e ch t out st now) e ch)"
    by (simp add: kept_by_writes_def)
  with assms(2,3) show ?thesis
    by (auto simp: query_main_step_def Let_def calling_def logger_def resolve_fields
        split: prod.splits sum.splits option.splits if_splits)
qed

lemma step_status_raises:
  assumes "fst (check_transcription_status X (pn_transcription_id p) (ext w)) = Inl e"
  shows "\<exists>w'. query_main_step X (c, s, f, w) p = (c, s, f + 1, w') \<and> db w' = db w
      \<and> logs w' = logs w @ [Error e]
      \<and> calls w' = calls w @ [Call_check_transcription_status (pn_transcription_id p)]"
  using assms
  by (cases "check_transcription_status X (pn_transcription_id p) (ext w)")
     (simp add: query_main_step_def calling_def logger_def)

lemma step_status_malformed:
  assumes "check_transcription_status X (pn_transcription_id p) (ext w) = (Inr st, x1)"
    and "st_status st = None"
  shows "\<exists>w'. query_main_step X (c, s, f, w) p = (c, s, f + 1, w') \<and> db w' = db w
      \<and> logs w' = logs w @ [Error (KeyError ''status'')]
      \<and> calls w' = calls w @ [Call_check_transcription_status (pn_transcription_id p)]"
  using assms by (simp add: query_main_step_def calling_def logger_def)

lemma step_result_raises:
  assumes "check_transcription_status X (pn_transcription_id p) (ext w) = (Inr st, x1)"
    and "st_status st = Some ''Succeeded''"
    and "fst (get_transcription_result X (pn_transcription_id p) x1) = Inl e"
  shows "\<exists>w'. query_main_step X (c, s, f, w) p = (c, s, f + 1, w') \<and> db w' = db w
      \<and> logs w' = logs w @ [Error e]
      \<and> calls w' = calls w @ [Call_check_transcription_status (pn_transcription_id p),
                               Call_get_transcription_result (pn_transcription_id p)]"
  using assms
  by (cases "get_transcription_result X (pn_transcription_id p) x1")
     (simp add: query_main_step_def calling_def logger_def)

lemma step_save_raises:
  assumes "check_transcription_status X (pn_transcription_id p) (ext w) = (Inr st, x1)"
    and "st_status st = Some ''Succeeded''"
    and "get_transcription_result X (pn_transcription_id p) x1 = (Inr segs, x2)"
    and "segs \<noteq> []"
    and "fst (save_output X p segs x2) = Inl e"
  shows "\<exists>w'. query_main_step X (c, s, f, w) p = (c, s, f + 1, w') \<and> db w' = db w
      \<and> logs w' = logs w @ [Error e]
      \<and> calls w' = calls w @ [Call_check_transcription_status (pn_transcription_id p),
                               Call_get_transcription_result (pn_transcription_id p),
                               Call_save_output p segs]"
  using assms
  by (cases "save_output X p segs x2")
     (simp add: query_main_step_def calling_def logger_def)

text \<open>
  C4. One pass of the loop of \<open>main\<close> over a pending job, when the status query
  raises, when the status response has no status, when the job succeeded and the
  fetch of the result raises, and when the result has segments and writing the output
  raises: the job is logged as an error and counted as failed, the store after the
  pass is the store before it (so the pending row is the same and no processed row
  was written), and the calls made are the ones up to the failing one, none of which
  deletes the remote job.
\<close>

theorem transient_errors_preserve_pending:
  "(fst (check_transcription_status X (pn_transcription_id p) (ext w)) = Inl e \<longrightarrow>
      (\<exists>w'. query_main_step X (c, s, f, w) p = (c, s, f + 1, w') \<and> db w' = db w
         \<and> logs w' = logs w @ [Error e]
         \<and> calls w' = calls w @ [Call_check_transcription_status (pn_transcription_id p)]))
   \<and> (check_transcription_status X (pn_transcription_id p) (ext w) = (Inr st, x1)
       \<and> st_status st = None \<longrightarrow>
      (\<exists>w'. query_main_step X (c, s, f, w) p = (c, s, f + 1, w') \<and> db w' = db w
         \<and> logs w' = logs w @ [Error (KeyError ''status'')]
         \<and> calls w' = calls w @ [Call_check_transcription_status (pn_transcription_id p)]))
   \<and> (check_transcription_status X (pn_transcription_id p) (ext w) = (Inr st, x1)
       \<and> st_status st = Some ''Succeeded''
       \<and> fst (get_transcription_result X (pn_transcription_id p) x1) = Inl e \<longrightarrow>
      (\<exists>w'. query_main_step X (c, s, f, w) p = (c, s, f + 1, w') \<and> db w' = db w
         \<and> logs w' = logs w @ [Error e]
         \<and> calls w' = calls w @ [Call_check_transcription_status (pn_transcription_id p),
                                  Call_get_transcription_result (pn_transcription_id p)]))
   \<and> (check_transcription_status X (pn_transcription_id p) (ext w) = (Inr st, x1)
       \<and> st_status st = Some ''Succeeded''
       \<and> get_transcription_result X (pn_transcription_id p) x1 = (Inr segs, x2)
       \<and> segs \<noteq> []
       \<and> fst (save_output X p segs x2) = Inl e \<longrightarrow>
      (\<exists>w'. query_main_step X (c, s, f, w) p = (c, s, f + 1, w') \<and> db w' = db w
         \<and> logs w' = logs w @ [Error e]
         \<and> calls w' = calls w @ [Call_check_transcription_status (pn_transcription_id p),
                                  Call_get_transcription_result (pn_transcription_id p),
                                  Call_save_output p segs]))"
  using step_status_raises [of X p w e c s f] step_status_malformed [of X p w st x1 c s f]
    step_result_raises [of X p w st x1 e c s f] step_save_raises [of X p w st x1 segs x2 e c s f]
  by blast

theorem transient_errors_preserve_pending_witness:
  "fst (check_transcription_status demo_down
          (pn_transcription_id (hd (pending_episodes demo_pending_db)))
          (ext (demo_world demo_pending_db))) = Inl (Exception ''timed out'')
   \<and> db (snd (snd (snd (query_main_step demo_down (0, 0, 0, demo_world demo_pending_db)
        (hd (pending_episodes demo_pending_db)))))) = demo_pending_db
   \<and> fst (snd (snd (query_main_step demo_down (0, 0, 0, demo_world demo_pending_db)
        (hd (pending_episodes demo_pending_db))))) = 1
   \<and> is_pending demo_pending_db ''ep-1'' ''demo''"
proof -
  let ?p = "hd (pending_episodes demo_pending_db)"
  have a: "fst (check_transcription_status demo_down (pn_transcription_id ?p)
      (ext (demo_world demo_pending_db))) = Inl (Exception ''timed out'')"
    by (simp add: demo_defs)
  have d: "db (demo_world demo_pending_db) = demo_pending_db" by (simp add: demo_world_def)
  from a transient_errors_preserve_pending [of demo_down ?p "demo_world demo_pending_db"
      "Exception ''timed out''" 0 0 0]
  obtain w' where "query_main_step demo_down (0, 0, 0, demo_world demo_pending_db) ?p = (0, 0, 0 + 1, w')"
    and "db w' = db (demo_world demo_pending_db)"
    by blast
  with a d demo_pending_db_pending show ?thesis by simp
qed

text \<open>
  The call that deletes the remote job comes after the two writes. What it raises is
  caught by the same handler: the job is resolved in the store, logged as an error
  and counted as failed.
\<close>

lemma step_delete_raises:
  assumes "check_transcription_status X (pn_transcription_id p) (ext w) = (Inr st, x1)"
    and "st_status st = Some ''Failed''"
    and "fst (delete_transcription X (pn_transcription_id p) x1) = Inl e"
  shows "\<exists>w'. query_main_step X (c, s, f, w) p = (c, s, f + 1, w')
      \<and> db w' = remove_pending
                  (mark_processed (db w) (pn_episode_id p) (pn_channel p) (pn_title p) []
                     ''failed'' (datetime_now X x1))
                  (pn_episode_id p) (pn_channel p)
      \<and> last (logs w') = Error e"
  using assms
  by (cases "delete_transcription X (pn_transcription_id p) x1")
     (simp add: query_main_step_def calling_def logger_def resolve_def Let_def)

section \<open>Invariants of the store\<close>

lemma exclusive_init: "exclusive init_db"
  by (simp add: exclusive_def is_pending_def init_db_def)

lemma exclusive_kept: "kept_by_writes exclusive"
  unfolding kept_by_writes_def
  using exclusive_init
  by (auto simp: exclusive_def is_pending_mark_pending is_processed_mark_pending
      is_pending_remove_pending is_processed_remove_pending is_processed_mark_processed
      is_pending_mark_processed)

lemma unique_keys_kept: "kept_by_writes unique_keys"
  unfolding kept_by_writes_def
  by (simp add: unique_keys_init unique_keys_mark_pending unique_keys_mark_processed
      unique_keys_remove_pending)

lemma single_episode_kept:
  assumes "kept_by_writes I" and "I (db w)"
  shows "I (db (snd (process_single_rss_episode X ch lang ep w)))"
proof (cases "is_processed (db w) (ep_id ep) ch \<or> is_pending (db w) (ep_id ep) ch")
  case True
  with assms(2) show ?thesis by (auto simp: process_single_rss_episode_def logger_fields)
next
  case False
  then have n: "\<not> is_processed (db w) (ep_id ep) ch" "\<not> is_pending (db w) (ep_id ep) ch"
    by simp_all
  with assms have "\<And>t a tid p du now. I (mark_pending (db w) (ep_id ep) ch t a tid p du now)"
    by (simp add: kept_by_writes_def)
  with assms(2) single_attempt [OF n, of X lang] show ?thesis
    by (auto split: prod.splits sum.splits)
qed

lemma single_rss_kept:
  assumes "kept_by_writes I" and "I (db w)"
  shows "I (db (snd (process_single_rss X url ch lang w)))"
proof -
  obtain r w1 where c: "calling (Call_parse_feed url 1) (parse_feed X url 1) w = (r, w1)"
    by (cases "calling (Call_parse_feed url 1) (parse_feed X url 1) w")
  then have "db w1 = db w" using calling_fields(2) [of "Call_parse_feed url 1" "parse_feed X url 1" w]
    by simp
  with assms(2) have i1: "I (db w1)" by simp
  then have "I (db (logger No_episodes_found w1))" by (simp add: logger_fields)
  with c i1 single_episode_kept [OF assms(1), of w1 X ch lang] show ?thesis
    by (auto simp: process_single_rss_def case_prod_beta split: sum.splits list.splits)
qed

lemma config_episode_kept:
  assumes "kept_by_writes I" and "I (db w)"
  shows "I (db (snd (snd (process_config_episode X chan (n, k, w) ep))))"
proof (cases "is_processed (db w) (ep_id ep) (ch_name chan) \<or> is_pending (db w) (ep_id ep) (ch_name chan)")
  case True
  with assms(2) show ?thesis by (auto simp: process_config_episode_def logger_fields)
next
  case False
  then have nn: "\<not> is_processed (db w) (ep_id ep) (ch_name chan)"
    "\<not> is_pending (db w) (ep_id ep) (ch_name chan)"
    by simp_all
  with assms have "\<And>t a tid p du now. I (mark_pending (db w) (ep_id ep) (ch_name chan) t a tid p du now)"
    by (simp add: kept_by_writes_def)
  with assms(2) config_attempt [OF nn, of X n k] show ?thesis
    by (auto split: prod.splits sum.splits)
qed

lemma config_episodes_kept:
  assumes "kept_by_writes I"
  shows "I (db (snd (snd acc))) \<Longrightarrow> I (db (snd (snd (foldl (process_config_episode X chan) acc episodes))))"
proof (induction episodes arbitrary: acc)
  case Nil
  then show ?case by simp
next
  case (Cons ep episodes)
  obtain n k w where acc: "acc = (n, k, w)" by (cases acc)
  with Cons.prems have "I (db w)" by simp
  then have "I (db (snd (snd (process_config_episode X chan (n, k, w) ep))))"
    by (rule config_episode_kept [OF assms])
  then have "I (db (snd (snd (foldl (process_config_episode X chan)
      (process_config_episode X chan (n, k, w) ep) episodes))))"
    by (rule Cons.IH)
  with acc show ?case by simp
qed

lemma config_channel_kept:
  assumes "kept_by_writes I" and "I (db w)"
  shows "I (db (snd (snd (process_config_channel X (n, k, w) chan))))"
proof -
  let ?c = "Call_parse_feed (ch_url chan) (ch_max_episodes chan)"
  let ?f = "parse_feed X (ch_url chan) (ch_max_episodes chan)"
  obtain r w1 where c: "calling ?c ?f w = (r, w1)" by (cases "calling ?c ?f w")
  then have "db w1 = db w" using calling_fields(2) [of ?c ?f w] by simp
  with assms(2) have i1: "I (db w1)" by simp
  show ?thesis
  proof (cases r)
    case (Inl e)
    with c i1 show ?thesis by (simp add: process_config_channel_def logger_fields)
  next
    case (Inr episodes)
    from i1 have "I (db (snd (snd (n, k, w1))))" by simp
    then have "I (db (snd (snd (foldl (process_config_episode X chan) (n, k, w1) episodes))))"
      by (rule config_episodes_kept [OF assms(1)])
    with c Inr show ?thesis by (simp add: process_config_channel_def)
  qed
qed

lemma config_channels_kept:
  assumes "kept_by_writes I"
  shows "I (db (snd (snd acc))) \<Longrightarrow> I (db (snd (snd (foldl (process_config_channel X) acc channels))))"
proof (induction channels arbitrary: acc)
  case Nil
  then show ?case by simp
next
  case (Cons chan channels)
  obtain n k w where acc: "acc = (n, k, w)" by (cases acc)
  with Cons.prems have "I (db w)" by simp
  then have "I (db (snd (snd (process_config_channel X (n, k, w) chan))))"
    by (rule config_channel_kept [OF assms])
  then have "I (db (snd (snd (foldl (process_config_channel X)
      (process_config_channel X (n, k, w) chan) channels))))"
    by (rule Cons.IH)
  with acc show ?case by simp
qed

lemma config_file_kept:
  assumes "kept_by_writes I" and "I (db w)"
  shows "I (db (snd (process_config_file X w)))"
proof (cases "config_exists X (ext w)")
  case False
  with assms(2) show ?thesis by (simp add: process_config_file_def logger_fields)
next
  case True
  obtain r w1 where c: "calling Call_load_config (load_config X) w = (r, w1)"
    by (cases "calling Call_load_config (load_config X) w")
  then have "db w1 = db w" using calling_fields(2) [of Call_load_config "load_config X" w] by simp
  with assms(2) have i1: "I (db w1)" by simp
  show ?thesis
  proof (cases r)
    case (Inl e)
    with True c i1 show ?thesis by (simp add: process_config_file_def)
  next
    case (Inr channels)
    from i1 have "I (db (snd (snd (0::nat, 0::nat, w1))))" by simp
    then have "I (db (snd (snd (foldl (process_config_channel X) (0, 0, w1) channels))))"
      by (rule config_channels_kept [OF assms(1)])
    with True c Inr show ?thesis by (simp add: process_config_file_def case_prod_beta)
  qed
qed

lemma query_steps_kept:
  assumes "kept_by_writes I"
  shows "I (db (snd (snd (snd acc)))) \<Longrightarrow>
    I (db (snd (snd (snd (foldl (query_main_step X) acc pending_list)))))"
proof (induction pending_list arbitrary: acc)
  case Nil
  then show ?case by simp
next
  case (Cons p pending_list)
  obtain c s f w where acc: "acc = (c, s, f, w)" by (cases acc)
  obtain c' s' f' w' where st: "query_main_step X (c, s, f, w) p = (c', s', f', w')"
    by (cases "query_main_step X (c, s, f, w) p")
  from Cons.prems acc have "I (db w)" by simp
  with assms have "I (db w')" using st by (rule query_main_step_kept)
  then have "I (db (snd (snd (snd (c', s', f', w')))))" by simp
  then have "I (db (snd (snd (snd (foldl (query_main_step X) (c', s', f', w') pending_list)))))"
    by (rule Cons.IH)
  with acc st show ?case by simp
qed

lemma listing_keeps_db: "db (foldl (\<lambda>w' p. logger (Listed p) w') w ps) = db w"
  by (induction ps arbitrary: w) (simp_all add: logger_fields)

lemma query_main_kept:
  assumes "kept_by_writes I" and "I (db w)"
  shows "I (db (query_main X channel list_only w))"
proof -
  from assms(2) have "I (db (snd (snd (snd (0::nat, 0::nat, 0::nat, w)))))" by simp
  then have "I (db (snd (snd (snd (foldl (query_main_step X) (0, 0, 0, w) (get_pending (db w) channel))))))"
    by (rule query_steps_kept [OF assms(1)])
  with assms(2) show ?thesis
    by (simp add: query_main_def Let_def logger_fields listing_keeps_db case_prod_beta)
qed

lemma reachable_kept:
  assumes "kept_by_writes I" and "reachable X w"
  shows "I (db w)"
  using assms(2)
proof (induction rule: reachable.induct)
  case (reachable_init x)
  from assms(1) show ?case by (simp add: kept_by_writes_def)
next
  case (reachable_ext w x)
  then show ?case by simp
next
  case (reachable_single w url channel_name language)
  then show ?case by (simp add: single_rss_kept [OF assms(1)])
next
  case (reachable_config w)
  then show ?case by (simp add: config_file_kept [OF assms(1)])
next
  case (reachable_query w channel list_only)
  then show ?case by (simp add: query_main_kept [OF assms(1)])
qed

text \<open>Both invariants hold in every state the programs reach.\<close>

lemma reachable_unique_keys: "reachable X w \<Longrightarrow> unique_keys (db w)"
  by (rule reachable_kept [OF unique_keys_kept])

lemma reachable_exclusive: "reachable X w \<Longrightarrow> exclusive (db w)"
  by (rule reachable_kept [OF exclusive_kept])

lemma demo_submit_run:
  "snd (process_single_rss demo_ok ''http://example.com/feed.xml'' ''demo'' ''auto'' (new_world 0)) =
     \<lparr>db = demo_pending_db, ext = 1,
      calls = [Call_parse_feed ''http://example.com/feed.xml'' 1,
               Call_submit_transcription ''http://example.com/1.mp3'' ''auto''],
      logs = [Submitted ''Episode 1'' ''job-1'']\<rparr>"
  by (simp add: process_single_rss_def process_single_rss_episode_def calling_def logger_def
      demo_defs store_defs)

lemma demo_query_run:
  "db (query_main demo_ok None False
        \<lparr>db = demo_pending_db, ext = 1,
         calls = [Call_parse_feed ''http://example.com/feed.xml'' 1,
                  Call_submit_transcription ''http://example.com/1.mp3'' ''auto''],
         logs = [Submitted ''Episode 1'' ''job-1'']\<rparr>) =
     \<lparr>processed_episodes =
        [\<lparr>pe_id = 1, pe_episode_id = ''ep-1'', pe_channel = ''demo'', pe_title = ''Episode 1'',
          pe_processed_at = 4, pe_status = ''success'',
          pe_output_path = ''output/demo/1970-01-01/Episode 1.md''\<rparr>],
      processed_seq = 1, pending_episodes = [], pending_seq = 1\<rparr>"
  by (simp add: query_main_def query_main_step_def resolve_def Let_def calling_def logger_def
      demo_defs store_defs example_segments_def)

lemma demo_reachable:
  "reachable demo_ok
     (query_main demo_ok None False
        (snd (process_single_rss demo_ok ''http://example.com/feed.xml'' ''demo'' ''auto'' (new_world 0))))"
  unfolding new_world_def
  by (rule reachable_query, rule reachable_single, rule reachable_init)

text \<open>
  C3. In every state that runs of the two programs reach from a new database, no
  identity is pending and processed with status success at once. A pass of the loop
  of \<open>main\<close> over a pending job that changes the store, or that logs the job as
  completed, as without segments or as failed by the service, leaves the identity of
  the job not pending; a pass that ends by logging the job as completed leaves it
  processed with status success and not pending.
\<close>

theorem pending_processed_exclusive:
  "(reachable X w \<longrightarrow> \<not> (is_pending (db w) e c \<and> is_processed (db w) e c))
   \<and> (query_main_step X (n1, n2, n3, w) p = (n1', n2', n3', w') \<and> db w' \<noteq> db w \<longrightarrow>
        \<not> is_pending (db w') (pn_episode_id p) (pn_channel p))
   \<and> (query_main_step X (n1, n2, n3, w) p = (n1', n2', n3', w')
        \<and> (Completed out \<in> set (drop (length (logs w)) (logs w'))
           \<or> No_segments_found \<in> set (drop (length (logs w)) (logs w'))
           \<or> Failed_remotely m \<in> set (drop (length (logs w)) (logs w'))) \<longrightarrow>
        \<not> is_pending (db w') (pn_episode_id p) (pn_channel p))
   \<and> (query_main_step X (n1, n2, n3, w) p = (n1', n2', n3', w') \<and> last (logs w') = Completed out \<longrightarrow>
        is_processed (db w') (pn_episode_id p) (pn_channel p)
        \<and> \<not> is_pending (db w') (pn_episode_id p) (pn_channel p))"
proof -
  have "reachable X w \<Longrightarrow> \<not> (is_pending (db w) e c \<and> is_processed (db w) e c)"
    using reachable_exclusive [of X w] by (simp add: exclusive_def)
  then show ?thesis
    using query_main_step_resolved [of X n1 n2 n3 w p n1' n2' n3' w']
      query_main_step_completed [of X n1 n2 n3 w p n1' n2' n3' w' out]
      query_main_step_terminal [of X n1 n2 n3 w p n1' n2' n3' w' out m]
    by blast
qed

theorem pending_processed_exclusive_witness:
  "reachable demo_ok
     (query_main demo_ok None False
        (snd (process_single_rss demo_ok ''http://example.com/feed.xml'' ''demo'' ''auto'' (new_world 0))))
   \<and> is_processed
        (db (query_main demo_ok None False
          (snd (process_single_rss demo_ok ''http://example.com/feed.xml'' ''demo'' ''auto'' (new_world 0)))))
        ''ep-1'' ''demo''
   \<and> \<not> is_pending
        (db (query_main demo_ok None False
          (snd (process_single_rss demo_ok ''http://example.com/feed.xml'' ''demo'' ''auto'' (new_world 0)))))
        ''ep-1'' ''demo''"
proof -
  let ?w = "query_main demo_ok None False
        (snd (process_single_rss demo_ok ''http://example.com/feed.xml'' ''demo'' ''auto'' (new_world 0)))"
  have "db ?w =
     \<lparr>processed_episodes =
        [\<lparr>pe_id = 1, pe_episode_id = ''ep-1'', pe_channel = ''demo'', pe_title = ''Episode 1'',
          pe_processed_at = 4, pe_status = ''success'',
          pe_output_path = ''output/demo/1970-01-01/Episode 1.md''\<rparr>],
      processed_seq = 1, pending_episodes = [], pending_seq = 1\<rparr>"
    by (simp only: demo_submit_run demo_query_run)
  then have "is_processed (db ?w) ''ep-1'' ''demo''"
    by (simp add: is_processed_def)
  with demo_reachable pending_processed_exclusive [of demo_ok ?w "''ep-1''" "''demo''"]
  show ?thesis by blast
qed

section \<open>The batch poll\<close>



















end
